theory Spec2Isabelle
  imports Complex_Main "HOL-Library.Word" "HOL-Library.AList" "HOL-Library.Multiset"
begin

section \<open>errors.py\<close>

text \<open>
  The exception classes of \<^verbatim>\<open>monolith/errors.py\<close> that the modelled code raises, together
  with the built-in exceptions that can escape the modelled code: \<^verbatim>\<open>KeyError\<close> from a
  dictionary access; \<^verbatim>\<open>ValueError\<close>, \<^verbatim>\<open>OverflowError\<close> and \<^verbatim>\<open>MemoryError\<close> from
  \<^verbatim>\<open>bytearray(size)\<close>; \<^verbatim>\<open>RuntimeError\<close> standing for any other \<^verbatim>\<open>Exception\<close> a step hook
  raises. Each carries its message; \<open>str\<close> is Python's \<^verbatim>\<open>str(exc)\<close>. The formatted
  arguments of the f-string messages are left out of the message text.
\<close>

datatype exn =
    TaskExecutionError string
  | MemoryErrorLogical string
  | IPCError string
  | KeyError string
  | ValueError string
  | OverflowError string
  | MemoryError string
  | RuntimeError string

fun str :: "exn \<Rightarrow> string" where
  "str (TaskExecutionError m) = m"
| "str (MemoryErrorLogical m) = m"
| "str (IPCError m) = m"
| "str (KeyError m) = m"
| "str (ValueError m) = m"
| "str (OverflowError m) = m"
| "str (MemoryError m) = m"
| "str (RuntimeError m) = m"

fun is_MemoryErrorLogical :: "exn \<Rightarrow> bool" where
  "is_MemoryErrorLogical (MemoryErrorLogical m) = True"
| "is_MemoryErrorLogical e = False"

text \<open>The two exceptions with which \<^verbatim>\<open>bytearray(size)\<close> fails to supply a buffer.\<close>

fun is_buffer_error :: "exn \<Rightarrow> bool" where
  "is_buffer_error (OverflowError m) = True"
| "is_buffer_error (MemoryError m) = True"
| "is_buffer_error e = False"


section \<open>memory.py\<close>

type_synonym byte = "8 word"

text \<open>The dataclass \<^verbatim>\<open>Region\<close> (fields \<^verbatim>\<open>id\<close> and \<^verbatim>\<open>size\<close> renamed: both are HOL constants).\<close>

record Region =
  region_id :: string
  owner_task_id :: string
  region_size :: int
  read_only :: bool

text \<open>
  The class \<^verbatim>\<open>MemoryPool\<close>. The two dictionaries \<^verbatim>\<open>_regions\<close> and \<^verbatim>\<open>_storage\<close> are
  association lists in insertion order: \<open>map_of\<close> is the lookup, \<open>AList.update\<close> the
  assignment \<^verbatim>\<open>d[k] = v\<close>, \<open>AList.delete\<close> the statement \<^verbatim>\<open>del d[k]\<close>. A \<^verbatim>\<open>bytearray\<close>
  is a list of bytes.
\<close>

record MemoryPool =
  max_bytes :: int
  used_bytes :: int
  regions :: "(string \<times> Region) list"
  storage :: "(string \<times> byte list) list"

definition MemoryPool_init :: "int \<Rightarrow> MemoryPool" where
  "MemoryPool_init mb = \<lparr>max_bytes = mb, used_bytes = 0, regions = [], storage = []\<rparr>"

definition free_bytes :: "MemoryPool \<Rightarrow> int" where
  "free_bytes p = max_bytes p - used_bytes p"

definition region_count :: "MemoryPool \<Rightarrow> nat" where
  "region_count p = length (regions p)"

definition require_region :: "MemoryPool \<Rightarrow> string \<Rightarrow> exn + Region" where
  "require_region p rid =
     (case map_of (regions p) rid of
        None \<Rightarrow> Inl (MemoryErrorLogical ''unknown region'')
      | Some region \<Rightarrow> Inr region)"

definition ensure_bounds :: "Region \<Rightarrow> int \<Rightarrow> int \<Rightarrow> exn + unit" where
  "ensure_bounds region offset len =
     (if offset < 0 \<or> len < 0 \<or> offset + len > region_size region
      then Inl (MemoryErrorLogical ''out-of-bounds access'')
      else Inr ())"

definition ensure_owner :: "Region \<Rightarrow> string \<Rightarrow> exn + unit" where
  "ensure_owner region requester_task_id =
     (if owner_task_id region \<noteq> requester_task_id
      then Inl (MemoryErrorLogical ''owner mismatch'')
      else Inr ())"

text \<open>
  \<^verbatim>\<open>bytearray(size)\<close>, on a 64-bit build: a negative size raises \<^verbatim>\<open>ValueError\<close>, a size that
  does not fit the index type (\<open>2\<^sup>6\<^sup>3\<close> or more) raises \<^verbatim>\<open>OverflowError\<close>, and otherwise
  the buffer of zeros is returned if the host has the memory for it, which \<open>host_ok\<close> says,
  and \<^verbatim>\<open>MemoryError\<close> is raised if it has not.
\<close>

definition bytearray :: "bool \<Rightarrow> int \<Rightarrow> exn + byte list" where
  "bytearray host_ok n =
     (if n < 0 then Inl (ValueError ''negative count'')
      else if n \<ge> 9223372036854775808
        then Inl (OverflowError ''cannot fit int into an index-sized integer'')
      else if \<not> host_ok then Inl (MemoryError [])
      else Inr (replicate (nat n) 0))"

text \<open>
  Every operation returns its outcome (\<open>Inl\<close> the exception raised, \<open>Inr\<close> the value
  returned) paired with the pool as the call leaves it, so that what a raising call did to
  the pool before it raised is part of the model. In \<^verbatim>\<open>alloc\<close> the region is entered in
  \<^verbatim>\<open>_regions\<close> before \<^verbatim>\<open>bytearray(size)\<close> is called, and \<^verbatim>\<open>_used_bytes\<close> is increased after
  it: an exception of \<^verbatim>\<open>bytearray\<close> leaves the region entered, without buffer and
  uncounted. The first argument of \<open>alloc\<close> is the \<open>host_ok\<close> of that call.
\<close>

definition alloc :: "bool \<Rightarrow> string \<Rightarrow> string \<Rightarrow> int \<Rightarrow> MemoryPool \<Rightarrow> (exn + Region) \<times> MemoryPool" where
  "alloc host_ok rid owner sz p =
     (if sz \<le> 0 then (Inl (MemoryErrorLogical ''size must be > 0''), p)
      else if used_bytes p + sz > max_bytes p
        then (Inl (MemoryErrorLogical ''out of logical memory''), p)
      else if map_of (regions p) rid \<noteq> None
        then (Inl (MemoryErrorLogical ''region already exists''), p)
      else
        let region = \<lparr>region_id = rid, owner_task_id = owner, region_size = sz,
                      read_only = False\<rparr>;
            p1 = p\<lparr>regions := AList.update rid region (regions p)\<rparr>
        in (case bytearray host_ok sz of
              Inl e \<Rightarrow> (Inl e, p1)
            | Inr buf \<Rightarrow>
                let p2 = p1\<lparr>storage := AList.update rid buf (storage p1)\<rparr>;
                    p3 = p2\<lparr>used_bytes := used_bytes p2 + sz\<rparr>
                in (Inr region, p3)))"

text \<open>
  \<^verbatim>\<open>free\<close>: the last statement \<^verbatim>\<open>del self._storage[region_id]\<close> raises \<^verbatim>\<open>KeyError\<close> when
  the buffer is missing, after the two statements before it have run.
\<close>

definition free :: "string \<Rightarrow> string \<Rightarrow> MemoryPool \<Rightarrow> (exn + unit) \<times> MemoryPool" where
  "free rid requester_task_id p =
     (case require_region p rid of
        Inl e \<Rightarrow> (Inl e, p)
      | Inr region \<Rightarrow>
          (case ensure_owner region requester_task_id of
             Inl e \<Rightarrow> (Inl e, p)
           | Inr _ \<Rightarrow>
               let p1 = p\<lparr>used_bytes := used_bytes p - region_size region\<rparr>;
                   p2 = p1\<lparr>regions := AList.delete rid (regions p1)\<rparr>
               in (case map_of (storage p2) rid of
                     None \<Rightarrow> (Inl (KeyError rid), p2)
                   | Some _ \<Rightarrow> (Inr (), p2\<lparr>storage := AList.delete rid (storage p2)\<rparr>))))"

text \<open>
  \<^verbatim>\<open>read\<close>: the slice \<^verbatim>\<open>buf[offset : offset + length]\<close>, taken after the bounds check has
  made both numbers non-negative, is \<open>take length (drop offset buf)\<close> (a slice stops at
  the end of the buffer, as \<open>take\<close> and \<open>drop\<close> do).
\<close>

definition read :: "string \<Rightarrow> int \<Rightarrow> int \<Rightarrow> MemoryPool \<Rightarrow> (exn + byte list) \<times> MemoryPool" where
  "read rid offset len p =
     (case require_region p rid of
        Inl e \<Rightarrow> (Inl e, p)
      | Inr region \<Rightarrow>
          (case ensure_bounds region offset len of
             Inl e \<Rightarrow> (Inl e, p)
           | Inr _ \<Rightarrow>
               (case map_of (storage p) rid of
                  None \<Rightarrow> (Inl (KeyError rid), p)
                | Some buf \<Rightarrow> (Inr (take (nat len) (drop (nat offset) buf)), p))))"

text \<open>
  \<^verbatim>\<open>write\<close> (named \<open>write_mem\<close>: \<open>write\<close> is an Isar keyword): the slice assignment \<^verbatim>\<open>buf[offset : offset + len(data)] = data\<close> replaces the
  slice by \<open>data\<close>.
\<close>

definition write_mem :: "string \<Rightarrow> string \<Rightarrow> int \<Rightarrow> byte list \<Rightarrow> MemoryPool \<Rightarrow> (exn + unit) \<times> MemoryPool" where
  "write_mem rid requester_task_id offset data p =
     (case require_region p rid of
        Inl e \<Rightarrow> (Inl e, p)
      | Inr region \<Rightarrow>
          if read_only region then (Inl (MemoryErrorLogical ''region is read-only''), p)
          else
            (case ensure_owner region requester_task_id of
               Inl e \<Rightarrow> (Inl e, p)
             | Inr _ \<Rightarrow>
                 (case ensure_bounds region offset (int (length data)) of
                    Inl e \<Rightarrow> (Inl e, p)
                  | Inr _ \<Rightarrow>
                      (case map_of (storage p) rid of
                         None \<Rightarrow> (Inl (KeyError rid), p)
                       | Some buf \<Rightarrow>
                           let buf' = take (nat offset) buf @ data
                                        @ drop (nat offset + length data) buf
                           in (Inr (), p\<lparr>storage := AList.update rid buf' (storage p)\<rparr>)))))"

text \<open>A call of one of the four operations, and the pool after a sequence of calls.\<close>

datatype pool_call =
    Alloc bool string string int
  | Free string string
  | Read string int int
  | Write string string int "byte list"

fun pool_after :: "pool_call \<Rightarrow> MemoryPool \<Rightarrow> MemoryPool" where
  "pool_after (Alloc host_ok rid owner sz) p = snd (alloc host_ok rid owner sz p)"
| "pool_after (Free rid req) p = snd (free rid req p)"
| "pool_after (Read rid offset len) p = snd (read rid offset len p)"
| "pool_after (Write rid req offset data) p = snd (write_mem rid req offset data p)"

fun raises_MemoryErrorLogical :: "pool_call \<Rightarrow> MemoryPool \<Rightarrow> bool" where
  "raises_MemoryErrorLogical (Alloc host_ok rid owner sz) p =
     (case fst (alloc host_ok rid owner sz p) of Inl e \<Rightarrow> is_MemoryErrorLogical e | Inr _ \<Rightarrow> False)"
| "raises_MemoryErrorLogical (Free rid req) p =
     (case fst (free rid req p) of Inl e \<Rightarrow> is_MemoryErrorLogical e | Inr _ \<Rightarrow> False)"
| "raises_MemoryErrorLogical (Read rid offset len) p =
     (case fst (read rid offset len p) of Inl e \<Rightarrow> is_MemoryErrorLogical e | Inr _ \<Rightarrow> False)"
| "raises_MemoryErrorLogical (Write rid req offset data) p =
     (case fst (write_mem rid req offset data p) of Inl e \<Rightarrow> is_MemoryErrorLogical e | Inr _ \<Rightarrow> False)"

definition pool_after_calls :: "pool_call list \<Rightarrow> MemoryPool \<Rightarrow> MemoryPool" where
  "pool_after_calls cs p = foldl (\<lambda>q c. pool_after c q) p cs"

text \<open>
  A call in which \<^verbatim>\<open>bytearray(size)\<close> fails (only \<^verbatim>\<open>alloc\<close> calls it), and a sequence of
  calls, made one after the other from a pool, in none of which it fails.
\<close>

fun buffer_fails :: "pool_call \<Rightarrow> MemoryPool \<Rightarrow> bool" where
  "buffer_fails (Alloc host_ok rid owner sz) p =
     (case fst (alloc host_ok rid owner sz p) of Inl e \<Rightarrow> is_buffer_error e | Inr _ \<Rightarrow> False)"
| "buffer_fails c p = False"

fun buffers_supplied :: "pool_call list \<Rightarrow> MemoryPool \<Rightarrow> bool" where
  "buffers_supplied [] p = True"
| "buffers_supplied (c # cs) p = (\<not> buffer_fails c p \<and> buffers_supplied cs (pool_after c p))"

definition regions_total :: "MemoryPool \<Rightarrow> int" where
  "regions_total p = sum_list (map (\<lambda>kr. region_size (snd kr)) (regions p))"

text \<open>
  The accounting invariant of a pool: region ids are unique, every region has its buffer,
  every size is positive, and \<open>used_bytes\<close> is the sum of the sizes, between 0 and
  \<open>max_bytes\<close>.
\<close>

definition pool_inv :: "MemoryPool \<Rightarrow> bool" where
  "pool_inv p \<longleftrightarrow>
     distinct (map fst (regions p))
     \<and> fst ` set (storage p) = fst ` set (regions p)
     \<and> (\<forall>kr \<in> set (regions p). 0 < region_size (snd kr))
     \<and> used_bytes p = regions_total p
     \<and> 0 \<le> used_bytes p \<and> used_bytes p \<le> max_bytes p"


section \<open>metrics.py\<close>

text \<open>
  \<^verbatim>\<open>Counter\<close> and \<^verbatim>\<open>Gauge\<close>: the value is a Python float, modelled as a real number; the
  lock and the help text play no part. \<^verbatim>\<open>Counter.inc\<close> is \<open>counter_inc\<close>, the methods of
  \<^verbatim>\<open>Gauge\<close> are \<open>gauge_set\<close>, \<open>gauge_inc\<close>, \<open>gauge_dec\<close>; the default amount is 1.
\<close>

record Counter =
  counter_name :: string
  counter_value :: real

definition Counter_init :: "string \<Rightarrow> Counter" where
  "Counter_init n = \<lparr>counter_name = n, counter_value = 0\<rparr>"

definition counter_inc :: "real \<Rightarrow> Counter \<Rightarrow> Counter" where
  "counter_inc amount c = c\<lparr>counter_value := counter_value c + amount\<rparr>"

record Gauge =
  gauge_name :: string
  gauge_value :: real

definition Gauge_init :: "string \<Rightarrow> Gauge" where
  "Gauge_init n = \<lparr>gauge_name = n, gauge_value = 0\<rparr>"

definition gauge_set :: "real \<Rightarrow> Gauge \<Rightarrow> Gauge" where
  "gauge_set v g = g\<lparr>gauge_value := v\<rparr>"

definition gauge_inc :: "real \<Rightarrow> Gauge \<Rightarrow> Gauge" where
  "gauge_inc amount g = g\<lparr>gauge_value := gauge_value g + amount\<rparr>"

definition gauge_dec :: "real \<Rightarrow> Gauge \<Rightarrow> Gauge" where
  "gauge_dec amount g = g\<lparr>gauge_value := gauge_value g - amount\<rparr>"

record MetricsRegistry =
  tasks_submitted :: Counter
  tasks_completed :: Counter
  tasks_failed :: Counter
  tasks_cancelled :: Counter
  scheduler_quantum_overruns :: Counter
  memory_used_bytes :: Gauge
  memory_region_count :: Gauge
  worker_queue_depth :: Gauge

definition METRICS_init :: MetricsRegistry where
  "METRICS_init =
     \<lparr>tasks_submitted = Counter_init ''monolith_tasks_submitted'',
      tasks_completed = Counter_init ''monolith_tasks_completed'',
      tasks_failed = Counter_init ''monolith_tasks_failed'',
      tasks_cancelled = Counter_init ''monolith_tasks_cancelled'',
      scheduler_quantum_overruns = Counter_init ''monolith_scheduler_quantum_overruns'',
      memory_used_bytes = Gauge_init ''monolith_memory_used_bytes'',
      memory_region_count = Gauge_init ''monolith_memory_region_count'',
      worker_queue_depth = Gauge_init ''monolith_worker_queue_depth''\<rparr>"


section \<open>models.py\<close>

datatype TaskState = PENDING | RUNNING | WAITING | DONE | FAILED | CANCELLED

text \<open>\<^verbatim>\<open>TaskState.name\<close>, the text the result message carries.\<close>

fun name :: "TaskState \<Rightarrow> string" where
  "name PENDING = ''PENDING''"
| "name RUNNING = ''RUNNING''"
| "name WAITING = ''WAITING''"
| "name DONE = ''DONE''"
| "name FAILED = ''FAILED''"
| "name CANCELLED = ''CANCELLED''"

text \<open>
  \<^verbatim>\<open>TaskMetadata\<close> (field \<^verbatim>\<open>id\<close> is \<open>task_id\<close>). Timestamps are Python floats, of which the
  code only takes the negation and the order; they are real numbers here. The two
  dictionaries are association lists of strings.
\<close>

record TaskMetadata =
  task_id :: string
  owner :: string
  priority :: int
  created_at :: real
  deadline :: "real option"
  labels :: "(string \<times> string) list"
  resource_hints :: "(string \<times> string) list"

text \<open>
  A submission payload: the optional \<^verbatim>\<open>meta\<close> sub-dictionary with its five recognised keys
  (each may be missing), and the other keys, which the scheduler never reads.
\<close>

record MetaDict =
  md_owner :: "string option"
  md_priority :: "int option"
  md_deadline :: "real option"
  md_labels :: "(string \<times> string) list option"
  md_resource_hints :: "(string \<times> string) list option"

record Payload =
  payload_meta :: "MetaDict option"
  payload_rest :: "(string \<times> string) list"

record Task =
  meta :: TaskMetadata
  payload :: Payload
  state :: TaskState
  last_error :: "string option"


section \<open>ipc.py\<close>

datatype MessageType = TASK_SUBMIT | TASK_RESULT | WORKER_STATUS | CONTROL

text \<open>
  \<^verbatim>\<open>Message\<close>, its payload dictionary a type parameter. The payload of a result message
  has the four keys \<^verbatim>\<open>id\<close>, \<^verbatim>\<open>owner\<close>, \<^verbatim>\<open>state\<close>, \<^verbatim>\<open>last_error\<close>.
\<close>

record 'p Message =
  msg_type :: MessageType
  msg_payload :: 'p

record ResultPayload =
  result_id :: string
  result_owner :: string
  result_state :: string
  result_last_error :: "string option"

text \<open>
  The result queue: the messages put so far, and what the queue will answer to the puts to
  come. Whether \<^verbatim>\<open>queue.put(msg, timeout=timeout)\<close> returns or raises depends on the other
  end of the queue; \<open>put_outcomes\<close> lists the answers in order (\<open>True\<close>: the message is
  taken; \<open>False\<close>: the put raises, the queue being full for the whole timeout or closed).
  Each put uses up one answer; once the list is used up every put is taken.
\<close>

record Queue =
  items :: "ResultPayload Message list"
  put_outcomes :: "bool list"

definition Queue_init :: "bool list \<Rightarrow> Queue" where
  "Queue_init outcomes = \<lparr>items = [], put_outcomes = outcomes\<rparr>"

text \<open>
  \<^verbatim>\<open>send\<close>: any exception of the put becomes an \<^verbatim>\<open>IPCError\<close>, whose message ends with the
  text of that exception (empty for a full queue, and left out here).
\<close>

definition send :: "Queue \<Rightarrow> ResultPayload Message \<Rightarrow> (exn + unit) \<times> Queue" where
  "send queue msg =
     (case put_outcomes queue of
        [] \<Rightarrow> (Inr (), queue\<lparr>items := items queue @ [msg]\<rparr>)
      | taken # later \<Rightarrow>
          if taken then (Inr (), queue\<lparr>items := items queue @ [msg], put_outcomes := later\<rparr>)
          else (Inl (IPCError ''send failed: ''), queue\<lparr>put_outcomes := later\<rparr>))"


section \<open>scheduler.py\<close>

text \<open>
  The state of a \<^verbatim>\<open>Scheduler\<close>, with the module-level registry \<^verbatim>\<open>METRICS\<close> it updates.
  A task object is known by its position in \<open>tasks\<close>: assigning to a field of the task the
  code holds is an update of the list at that position. \<^verbatim>\<open>self._tasks.remove(task)\<close> removes
  the first element equal to the task (the equality of the dataclass compares all fields):
  \<open>remove1\<close>. It cannot raise, the task being in the list.
\<close>

record Scheduler =
  tasks :: "Task list"
  result_queue :: Queue
  quantum_ms :: int
  memory :: MemoryPool
  metrics :: MetricsRegistry

definition Scheduler_init :: "Queue \<Rightarrow> int \<Rightarrow> int \<Rightarrow> Scheduler" where
  "Scheduler_init rq q mem_bytes =
     \<lparr>tasks = [], result_queue = rq, quantum_ms = q, memory = MemoryPool_init mem_bytes,
      metrics = METRICS_init\<rparr>"

text \<open>
  The two extension points. \<^verbatim>\<open>_execute_step\<close> receives the task and can reach the
  scheduler's pool; it returns the exception it raised, if any, with the task and the pool
  as it leaves them. \<^verbatim>\<open>_is_task_complete\<close> is a predicate on the task.
\<close>

record Hooks =
  execute_step :: "Task \<Rightarrow> MemoryPool \<Rightarrow> exn option \<times> Task \<times> MemoryPool"
  is_task_complete :: "Task \<Rightarrow> bool"

text \<open>The hooks of the source: a step that does nothing, complete unless \<^verbatim>\<open>WAITING\<close>.\<close>

definition default_hooks :: Hooks where
  "default_hooks =
     \<lparr>execute_step = (\<lambda>task pool. (None, task, pool)),
      is_task_complete = (\<lambda>task. state task \<notin> {WAITING})\<rparr>"

text \<open>The three readings of \<^verbatim>\<open>time.time()\<close> of one call of \<^verbatim>\<open>run_once\<close>.\<close>

record Clock =
  now :: real
  quantum_start :: real
  quantum_end :: real

text \<open>
  \<^verbatim>\<open>enqueue_from_payload\<close>; the fresh \<^verbatim>\<open>uuid4\<close> identifier and the creation time are
  arguments.
\<close>

definition enqueue_from_payload :: "string \<Rightarrow> real \<Rightarrow> Payload \<Rightarrow> Scheduler \<Rightarrow> Scheduler" where
  "enqueue_from_payload new_id time_now pl s =
     (let meta_dict = (case payload_meta pl of
                         None \<Rightarrow> \<lparr>md_owner = None, md_priority = None, md_deadline = None,
                                  md_labels = None, md_resource_hints = None\<rparr>
                       | Some d \<Rightarrow> d);
          m = \<lparr>task_id = new_id,
               owner = (case md_owner meta_dict of None \<Rightarrow> ''system'' | Some v \<Rightarrow> v),
               priority = (case md_priority meta_dict of None \<Rightarrow> 0 | Some v \<Rightarrow> v),
               created_at = time_now,
               deadline = md_deadline meta_dict,
               labels = (case md_labels meta_dict of None \<Rightarrow> [] | Some v \<Rightarrow> v),
               resource_hints = (case md_resource_hints meta_dict of None \<Rightarrow> [] | Some v \<Rightarrow> v)\<rparr>;
          task = \<lparr>meta = m, payload = pl, state = PENDING, last_error = None\<rparr>;
          s1 = s\<lparr>tasks := tasks s @ [task]\<rparr>;
          s2 = s1\<lparr>metrics := (metrics s1)\<lparr>tasks_submitted :=
                              counter_inc 1 (tasks_submitted (metrics s1))\<rparr>\<rparr>
      in s2\<lparr>metrics := (metrics s2)\<lparr>worker_queue_depth :=
                          gauge_set (real (length (tasks s2))) (worker_queue_depth (metrics s2))\<rparr>\<rparr>)"

text \<open>\<^verbatim>\<open>_emit_result\<close>: the message it builds, and the send.\<close>

definition result_message :: "Task \<Rightarrow> ResultPayload Message" where
  "result_message task =
     \<lparr>msg_type = TASK_RESULT,
      msg_payload = \<lparr>result_id = task_id (meta task),
                     result_owner = owner (meta task),
                     result_state = name (state task),
                     result_last_error = last_error task\<rparr>\<rparr>"

definition emit_result :: "Task \<Rightarrow> Scheduler \<Rightarrow> (exn + unit) \<times> Scheduler" where
  "emit_result task s =
     (let msg = result_message task;
          (r, q) = send (result_queue s) msg
      in (r, s\<lparr>result_queue := q\<rparr>))"

text \<open>
  The selection of \<^verbatim>\<open>run_once\<close>. \<open>ready_tasks\<close> is the list comprehension, as positions
  in the task list. \<open>key_gt a b\<close> is the comparison \<^verbatim>\<open>key(a) > key(b)\<close> of the tuples
  \<^verbatim>\<open>(priority, -created_at)\<close>; \<open>max_by_key\<close> is \<^verbatim>\<open>max(ready_tasks, key=...)\<close>, which keeps
  the first item and replaces it only by an item with a greater key.
\<close>

definition ready_tasks :: "Task list \<Rightarrow> nat list" where
  "ready_tasks ts = filter (\<lambda>i. state (ts ! i) \<in> {PENDING, WAITING}) [0 ..< length ts]"

definition key_gt :: "Task \<Rightarrow> Task \<Rightarrow> bool" where
  "key_gt a b \<longleftrightarrow>
     priority (meta a) > priority (meta b)
     \<or> (priority (meta a) = priority (meta b) \<and> - created_at (meta a) > - created_at (meta b))"

fun max_by_key :: "Task list \<Rightarrow> nat \<Rightarrow> nat list \<Rightarrow> nat" where
  "max_by_key ts best [] = best"
| "max_by_key ts best (i # rest) =
     max_by_key ts (if key_gt (ts ! i) (ts ! best) then i else best) rest"

definition select_task :: "Task list \<Rightarrow> nat option" where
  "select_task ts =
     (case ready_tasks ts of
        [] \<Rightarrow> None
      | i # rest \<Rightarrow> Some (max_by_key ts i rest))"

definition deadline_exceeded :: "Clock \<Rightarrow> Task \<Rightarrow> bool" where
  "deadline_exceeded clk task =
     (case deadline (meta task) of None \<Rightarrow> False | Some d \<Rightarrow> now clk > d)"

text \<open>The \<^verbatim>\<open>except Exception\<close> block of \<^verbatim>\<open>_run_task_quantum\<close>, for the task at position \<open>i\<close>.\<close>

definition on_exception :: "exn \<Rightarrow> nat \<Rightarrow> Scheduler \<Rightarrow> (exn + unit) \<times> Scheduler" where
  "on_exception exc i s =
     (let task = (tasks s ! i)\<lparr>state := FAILED, last_error := Some (str exc)\<rparr>;
          s1 = s\<lparr>tasks := (tasks s)[i := task]\<rparr>;
          s2 = s1\<lparr>metrics := (metrics s1)\<lparr>tasks_failed :=
                              counter_inc 1 (tasks_failed (metrics s1))\<rparr>\<rparr>
      in (case emit_result task s2 of
            (Inl e, s3) \<Rightarrow> (Inl e, s3)
          | (Inr _, s3) \<Rightarrow> (Inr (), s3\<lparr>tasks := remove1 task (tasks s3)\<rparr>)))"

text \<open>
  The \<^verbatim>\<open>finally\<close> block of \<^verbatim>\<open>_run_task_quantum\<close>. The elapsed time is computed on real
  numbers; the rounding of the float arithmetic can only move the overrun counter.
\<close>

definition on_finally :: "Clock \<Rightarrow> Scheduler \<Rightarrow> Scheduler" where
  "on_finally clk s =
     (let elapsed_ms = (quantum_end clk - quantum_start clk) * 1000;
          s1 = (if elapsed_ms > real_of_int (quantum_ms s)
                then s\<lparr>metrics := (metrics s)\<lparr>scheduler_quantum_overruns :=
                          counter_inc 1 (scheduler_quantum_overruns (metrics s))\<rparr>\<rparr>
                else s);
          s2 = s1\<lparr>metrics := (metrics s1)\<lparr>worker_queue_depth :=
                  gauge_set (real (length (tasks s1))) (worker_queue_depth (metrics s1))\<rparr>\<rparr>;
          s3 = s2\<lparr>metrics := (metrics s2)\<lparr>memory_used_bytes :=
                  gauge_set (real_of_int (used_bytes (memory s2))) (memory_used_bytes (metrics s2))\<rparr>\<rparr>
      in s3\<lparr>metrics := (metrics s3)\<lparr>memory_region_count :=
                  gauge_set (real (region_count (memory s3))) (memory_region_count (metrics s3))\<rparr>\<rparr>)"

text \<open>
  \<^verbatim>\<open>_run_task_quantum\<close> for the task at position \<open>i\<close>. The call of \<^verbatim>\<open>_emit_result\<close> on the
  \<^verbatim>\<open>DONE\<close> path is inside the \<^verbatim>\<open>try\<close>, so the exception it raises goes to the
  \<^verbatim>\<open>except\<close> block.
\<close>

definition run_task_quantum :: "Hooks \<Rightarrow> Clock \<Rightarrow> nat \<Rightarrow> Scheduler \<Rightarrow> (exn + unit) \<times> Scheduler" where
  "run_task_quantum h clk i s =
     (let task0 = (tasks s ! i)\<lparr>state := RUNNING\<rparr>;
          (raised, task1, pool1) = execute_step h task0 (memory s);
          s1 = s\<lparr>tasks := (tasks s)[i := task1], memory := pool1\<rparr>;
          (r, s') =
            (case raised of
               Some exc \<Rightarrow> on_exception exc i s1
             | None \<Rightarrow>
                 if is_task_complete h task1 then
                   let task2 = task1\<lparr>state := DONE\<rparr>;
                       s2 = s1\<lparr>tasks := (tasks s1)[i := task2]\<rparr>;
                       s3 = s2\<lparr>metrics := (metrics s2)\<lparr>tasks_completed :=
                                 counter_inc 1 (tasks_completed (metrics s2))\<rparr>\<rparr>
                   in (case emit_result task2 s3 of
                         (Inl exc, s4) \<Rightarrow> on_exception exc i s4
                       | (Inr _, s4) \<Rightarrow> (Inr (), s4\<lparr>tasks := remove1 task2 (tasks s4)\<rparr>))
                 else (Inr (), s1))
      in (r, on_finally clk s'))"

definition run_once :: "Hooks \<Rightarrow> Clock \<Rightarrow> Scheduler \<Rightarrow> (exn + unit) \<times> Scheduler" where
  "run_once h clk s =
     (case select_task (tasks s) of
        None \<Rightarrow> (Inr (), s)
      | Some i \<Rightarrow>
          let task = tasks s ! i in
          if deadline_exceeded clk task then
            let task' = task\<lparr>state := CANCELLED\<rparr>;
                s1 = s\<lparr>tasks := (tasks s)[i := task']\<rparr>;
                s2 = s1\<lparr>metrics := (metrics s1)\<lparr>tasks_cancelled :=
                          counter_inc 1 (tasks_cancelled (metrics s1))\<rparr>\<rparr>
            in (case emit_result task' s2 of
                  (Inl e, s3) \<Rightarrow> (Inl e, s3)
                | (Inr _, s3) \<Rightarrow>
                    let s4 = s3\<lparr>tasks := remove1 task' (tasks s3)\<rparr>
                    in (Inr (), s4\<lparr>metrics := (metrics s4)\<lparr>worker_queue_depth :=
                          gauge_set (real (length (tasks s4))) (worker_queue_depth (metrics s4))\<rparr>\<rparr>))
          else run_task_quantum h clk i s)"

text \<open>
  Calls of \<^verbatim>\<open>run_once\<close> one after the other, as the worker loop makes them; an exception
  that leaves \<^verbatim>\<open>run_once\<close> ends the loop.
\<close>

fun run_many :: "Hooks \<Rightarrow> Clock list \<Rightarrow> Scheduler \<Rightarrow> (exn + unit) \<times> Scheduler" where
  "run_many h [] s = (Inr (), s)"
| "run_many h (clk # clks) s =
     (case run_once h clk s of
        (Inl e, s') \<Rightarrow> (Inl e, s')
      | (Inr _, s') \<Rightarrow> run_many h clks s')"

text \<open>
  The calls a worker makes on its scheduler, and a sequence of them; an exception that
  leaves a call ends the sequence. \<open>submitted_ids\<close> lists the identifiers of the tasks the
  sequence submits.
\<close>

datatype sched_call = Enqueue string real Payload | RunOnce Clock

fun run_calls :: "Hooks \<Rightarrow> sched_call list \<Rightarrow> Scheduler \<Rightarrow> (exn + unit) \<times> Scheduler" where
  "run_calls h [] s = (Inr (), s)"
| "run_calls h (Enqueue new_id time_now pl # cs) s =
     run_calls h cs (enqueue_from_payload new_id time_now pl s)"
| "run_calls h (RunOnce clk # cs) s =
     (case run_once h clk s of
        (Inl e, s') \<Rightarrow> (Inl e, s')
      | (Inr _, s') \<Rightarrow> run_calls h cs s')"

fun submitted_ids :: "sched_call list \<Rightarrow> string list" where
  "submitted_ids [] = []"
| "submitted_ids (Enqueue new_id time_now pl # cs) = new_id # submitted_ids cs"
| "submitted_ids (RunOnce clk # cs) = submitted_ids cs"

text \<open>The identifiers carried by the messages of a queue.\<close>

definition result_ids :: "Queue \<Rightarrow> string list" where
  "result_ids q = map (\<lambda>m. result_id (msg_payload m)) (items q)"

text \<open>
  A step hook that ends the task at every step: called on a \<^verbatim>\<open>RUNNING\<close> task it raises, or
  returns with the task complete; and it leaves the task's identifier alone. The hooks of
  the source are of this kind.
\<close>

definition step_finishes :: "Hooks \<Rightarrow> bool" where
  "step_finishes h \<longleftrightarrow>
     (\<forall>task pool. state task = RUNNING \<longrightarrow>
        (case execute_step h task pool of
           (raised, task', pool') \<Rightarrow>
             task_id (meta task') = task_id (meta task)
             \<and> (raised = None \<longrightarrow> is_task_complete h task')))"

text \<open>What the queue answers to the next put, and to all the puts to come.\<close>

definition next_put_taken :: "Queue \<Rightarrow> bool" where
  "next_put_taken q = (case put_outcomes q of [] \<Rightarrow> True | taken # later \<Rightarrow> taken)"

definition all_puts_taken :: "Queue \<Rightarrow> bool" where
  "all_puts_taken q = list_all (\<lambda>taken. taken) (put_outcomes q)"

text \<open>
  The bookkeeping of submitted tasks. \<open>all_ready\<close>: every task of the list is \<^verbatim>\<open>PENDING\<close> or
  \<^verbatim>\<open>WAITING\<close>. \<open>terminal_result\<close>: a \<^verbatim>\<open>TASK_RESULT\<close> message whose state is \<^verbatim>\<open>DONE\<close>,
  \<^verbatim>\<open>FAILED\<close> or \<^verbatim>\<open>CANCELLED\<close>. \<open>accounted s ids\<close>: each of the identifiers \<open>ids\<close> is either
  the identifier of one message on the result queue or of one task still in the list,
  counted with multiplicity; the queued tasks are all ready, the messages all terminal, and
  the queue takes every put to come.
\<close>

definition all_ready :: "Task list \<Rightarrow> bool" where
  "all_ready ts = list_all (\<lambda>t. state t = PENDING \<or> state t = WAITING) ts"

definition task_ids :: "Task list \<Rightarrow> string list" where
  "task_ids ts = map (\<lambda>t. task_id (meta t)) ts"

definition terminal_result :: "ResultPayload Message \<Rightarrow> bool" where
  "terminal_result m \<longleftrightarrow>
     msg_type m = TASK_RESULT
     \<and> (result_state (msg_payload m) = ''DONE'' \<or> result_state (msg_payload m) = ''FAILED''
        \<or> result_state (msg_payload m) = ''CANCELLED'')"

definition accounted :: "Scheduler \<Rightarrow> string list \<Rightarrow> bool" where
  "accounted s ids \<longleftrightarrow>
     all_ready (tasks s) \<and> all_puts_taken (result_queue s)
     \<and> mset (result_ids (result_queue s)) + mset (task_ids (tasks s)) = mset ids
     \<and> list_all terminal_result (items (result_queue s))"

text \<open>
  Hooks and inputs for concrete runs. \<open>yielding_hooks\<close>: a step that parks the task in
  \<^verbatim>\<open>WAITING\<close>, with the completion predicate of the source. \<open>never_complete_hooks\<close>: the step
  of the source with a completion predicate overridden to say no. \<open>allocating_hooks\<close>: a step
  that allocates 64 bytes for its task in the scheduler's pool (the host has the memory),
  raising what \<^verbatim>\<open>alloc\<close> raises.
  \<open>payload_of\<close>: a payload with owner \<^verbatim>\<open>test\<close>, a priority and an optional deadline.
\<close>

definition yielding_hooks :: Hooks where
  "yielding_hooks =
     \<lparr>execute_step = (\<lambda>task pool. (None, task\<lparr>state := WAITING\<rparr>, pool)),
      is_task_complete = (\<lambda>task. state task \<notin> {WAITING})\<rparr>"

definition never_complete_hooks :: Hooks where
  "never_complete_hooks =
     \<lparr>execute_step = (\<lambda>task pool. (None, task, pool)),
      is_task_complete = (\<lambda>task. False)\<rparr>"

definition allocating_hooks :: Hooks where
  "allocating_hooks =
     \<lparr>execute_step = (\<lambda>task pool.
         case alloc True (task_id (meta task) @ ''/stack'') (task_id (meta task)) 64 pool of
           (Inl e, pool') \<Rightarrow> (Some e, task, pool')
         | (Inr _, pool') \<Rightarrow> (None, task, pool')),
      is_task_complete = (\<lambda>task. state task \<notin> {WAITING})\<rparr>"

definition payload_of :: "int \<Rightarrow> real option \<Rightarrow> Payload" where
  "payload_of prio dl =
     \<lparr>payload_meta = Some \<lparr>md_owner = Some ''test'', md_priority = Some prio, md_deadline = dl,
                            md_labels = None, md_resource_hints = None\<rparr>,
      payload_rest = [(''op'', ''test'')]\<rparr>"

definition clock_at :: "real \<Rightarrow> Clock" where
  "clock_at t = \<lparr>now = t, quantum_start = t, quantum_end = t\<rparr>"

text \<open>
  A scheduler with a quantum of 10 ms and a pool of 1024 bytes, after the submission of one
  task \<^verbatim>\<open>t1\<close> of priority 0 at time 5, with the given deadline; the result queue answers
  the puts to come as listed.
\<close>

definition one_task :: "real option \<Rightarrow> bool list \<Rightarrow> Scheduler" where
  "one_task dl outcomes =
     enqueue_from_payload ''t1'' 5 (payload_of 0 dl) (Scheduler_init (Queue_init outcomes) 10 1024)"

text \<open>
  What a call of \<^verbatim>\<open>run_once\<close> on scheduler \<open>s\<close> leaves, as \<open>out\<close>, when it has set the task at
  position \<open>i\<close> to \<open>t\<close> and sends the result of \<open>t\<close> on a queue in state \<open>q\<close>. If the put is
  taken the call returns, the message of \<open>t\<close> is the last of the queue, and \<open>t\<close> is removed
  from the list; if it is not, the call raises \<^verbatim>\<open>IPCError\<close>, the queue holds what it held,
  and \<open>t\<close> is in the list at position \<open>i\<close>.
\<close>

definition sends_result_of :: "Task \<Rightarrow> nat \<Rightarrow> Scheduler \<Rightarrow> Queue \<Rightarrow> (exn + unit) \<times> Scheduler \<Rightarrow> bool" where
  "sends_result_of t i s q out \<longleftrightarrow>
     (if next_put_taken q
      then fst out = Inr ()
         \<and> tasks (snd out) = remove1 t ((tasks s)[i := t])
         \<and> items (result_queue (snd out)) = items q @ [result_message t]
      else fst out = Inl (IPCError ''send failed: '')
         \<and> tasks (snd out) = (tasks s)[i := t]
         \<and> items (result_queue (snd out)) = items q)"

text \<open>
  A step hook that leaves the identifier of its task as it is. \<open>step_ends h clk s i\<close>: the
  call of \<^verbatim>\<open>run_once\<close> at time \<open>clk\<close> ends the task at position \<open>i\<close>, its deadline having
  passed, or its step raising, or its step leaving it complete.
\<close>

definition keeps_id :: "Hooks \<Rightarrow> bool" where
  "keeps_id h \<longleftrightarrow>
     (\<forall>task pool. task_id (meta (fst (snd (execute_step h task pool)))) = task_id (meta task))"

definition step_ends :: "Hooks \<Rightarrow> Clock \<Rightarrow> Scheduler \<Rightarrow> nat \<Rightarrow> bool" where
  "step_ends h clk s i \<longleftrightarrow>
     deadline_exceeded clk (tasks s ! i)
     \<or> (case execute_step h ((tasks s ! i)\<lparr>state := RUNNING\<rparr>) (memory s) of
           (raised, task1, pool1) \<Rightarrow> raised \<noteq> None \<or> is_task_complete h task1)"

text \<open>
  The scheduler after a call, whether the call returned or raised, and after a sequence of
  calls made by a caller that goes on after an exception. (The state in which the worker
  loop stops at an exception is the state after the calls it has made.)
\<close>

fun scheduler_after :: "Hooks \<Rightarrow> sched_call \<Rightarrow> Scheduler \<Rightarrow> Scheduler" where
  "scheduler_after h (Enqueue new_id time_now pl) s = enqueue_from_payload new_id time_now pl s"
| "scheduler_after h (RunOnce clk) s = snd (run_once h clk s)"

definition scheduler_after_calls :: "Hooks \<Rightarrow> sched_call list \<Rightarrow> Scheduler \<Rightarrow> Scheduler" where
  "scheduler_after_calls h cs s = foldl (\<lambda>x c. scheduler_after h c x) s cs"

text \<open>
  \<open>ledger s ids\<close>: each of the identifiers \<open>ids\<close> is the identifier of one message on the
  result queue or of one task in the list, counted with multiplicity, and every message is
  terminal.
\<close>

definition ledger :: "Scheduler \<Rightarrow> string list \<Rightarrow> bool" where
  "ledger s ids \<longleftrightarrow>
     mset (result_ids (result_queue s)) + mset (task_ids (tasks s)) = mset ids
     \<and> list_all terminal_result (items (result_queue s))"

text \<open>
  More hooks for concrete runs. \<open>renaming_hooks\<close>: a step that gives its task the identifier
  \<^verbatim>\<open>t1\<close>. \<open>two_step_hooks\<close>: a step that parks a task without labels in \<^verbatim>\<open>WAITING\<close>,
  noting the step in its labels, and lets a task with a label complete.
\<close>

definition renaming_hooks :: Hooks where
  "renaming_hooks =
     \<lparr>execute_step = (\<lambda>task pool. (None, task\<lparr>meta := (meta task)\<lparr>task_id := ''t1''\<rparr>\<rparr>, pool)),
      is_task_complete = (\<lambda>task. state task \<notin> {WAITING})\<rparr>"

definition two_step_hooks :: Hooks where
  "two_step_hooks =
     \<lparr>execute_step = (\<lambda>task pool.
         if labels (meta task) = []
         then (None, task\<lparr>meta := (meta task)\<lparr>labels := [(''step'', ''1'')]\<rparr>,
                          state := WAITING\<rparr>, pool)
         else (None, task, pool)),
      is_task_complete = (\<lambda>task. state task \<notin> {WAITING})\<rparr>"

text \<open>
  A scheduler after the submission of two tasks without deadline, \<^verbatim>\<open>a\<close> of priority 1 at
  time 100 and \<^verbatim>\<open>b\<close> of priority 99 at time 101; and the scheduler \<open>one_task None []\<close> after
  a first call of \<^verbatim>\<open>run_once\<close> under \<open>two_step_hooks\<close>, which has parked the task.
\<close>

definition two_tasks :: Scheduler where
  "two_tasks = enqueue_from_payload ''b'' 101 (payload_of 99 None)
        (enqueue_from_payload ''a'' 100 (payload_of 1 None)
           (Scheduler_init (Queue_init []) 10 1024))"

definition parked_task :: Scheduler where
  "parked_task = snd (run_once two_step_hooks (clock_at 10) (one_task None []))"

section \<open>The memory pool: accounting, error atomicity, zero fill\<close>

lemmas pool_defs = alloc_def free_def read_def write_mem_def require_region_def
  ensure_bounds_def ensure_owner_def

lemma sum_sizes_nonneg:
  "(\<forall>kr \<in> set al. 0 < region_size (snd kr)) \<Longrightarrow> 0 \<le> sum_list (map (\<lambda>kr. region_size (snd kr)) al)"
  by (induction al) auto

lemma sum_sizes_update_new:
  "map_of al k = None \<Longrightarrow>
   sum_list (map (\<lambda>kr. region_size (snd kr)) (AList.update k r al))
     = sum_list (map (\<lambda>kr. region_size (snd kr)) al) + region_size r"
  by (induction al) (auto split: if_splits)

lemma sum_sizes_delete:
  "distinct (map fst al) \<Longrightarrow> map_of al k = Some r \<Longrightarrow>
   sum_list (map (\<lambda>kr. region_size (snd kr)) (AList.delete k al))
     = sum_list (map (\<lambda>kr. region_size (snd kr)) al) - region_size r"
proof (induction al)
  case Nil
  then show ?case by simp
next
  case (Cons a al)
  show ?case
  proof (cases "fst a = k")
    case True
    with Cons.prems have "snd a = r" by (cases a) auto
    moreover from True Cons.prems have "k \<notin> fst ` set al" by auto
    then have "AList.delete k al = al" by simp
    ultimately show ?thesis using True by (cases a) simp
  next
    case False
    with Cons show ?thesis by (cases a) auto
  qed
qed

lemma set_update_new:
  "map_of al k = None \<Longrightarrow> set (AList.update k v al) = insert (k, v) (set al)"
  by (induction al) (auto split: if_splits)

lemma keys_delete: "fst ` set (AList.delete k al) = fst ` set al - {k}"
  by (induction al) auto

lemma set_delete_subset: "set (AList.delete k al) \<subseteq> set al"
  by (induction al) auto

lemma pool_inv_init: "0 \<le> mb \<Longrightarrow> pool_inv (MemoryPool_init mb)"
  by (simp add: pool_inv_def MemoryPool_init_def regions_total_def)

lemma bytearray_cases:
  "0 < sz \<Longrightarrow>
     bytearray host_ok sz = Inr (replicate (nat sz) 0)
     \<or> (\<exists>e. bytearray host_ok sz = Inl e \<and> is_buffer_error e)"
  by (simp add: bytearray_def)

lemma pool_inv_alloc:
  assumes inv: "pool_inv p" and ok: "\<not> buffer_fails (Alloc host_ok rid own sz) p"
  shows "pool_inv (snd (alloc host_ok rid own sz p))"
proof (cases "sz \<le> 0 \<or> used_bytes p + sz > max_bytes p \<or> map_of (regions p) rid \<noteq> None")
  case True
  then have "snd (alloc host_ok rid own sz p) = p" by (auto simp: alloc_def)
  with inv show ?thesis by simp
next
  case False
  define region where "region = \<lparr>region_id = rid, owner_task_id = own, region_size = sz,
                      read_only = False\<rparr>"
  from False have new: "map_of (regions p) rid = None" and pos: "0 < sz"
    and fits: "used_bytes p + sz \<le> max_bytes p" by auto
  from bytearray_cases [OF pos, of host_ok] ok False
  have buf: "bytearray host_ok sz = Inr (replicate (nat sz) 0)"
    by (auto simp: alloc_def Let_def)
  from False buf have eq: "snd (alloc host_ok rid own sz p) =
      p\<lparr>regions := AList.update rid region (regions p),
        storage := AList.update rid (replicate (nat sz) 0) (storage p),
        used_bytes := used_bytes p + sz\<rparr>"
    by (simp add: alloc_def Let_def region_def)
  have "regions_total (snd (alloc host_ok rid own sz p)) = regions_total p + sz"
    unfolding eq regions_total_def using sum_sizes_update_new[OF new, of region]
    by (simp add: region_def)
  moreover have "\<forall>kr \<in> set (AList.update rid region (regions p)). 0 < region_size (snd kr)"
    using inv pos by (auto simp: set_update_new[OF new] pool_inv_def region_def)
  moreover have "fst ` set (AList.update rid (replicate (nat sz) (0::byte)) (storage p))
      = fst ` set (AList.update rid region (regions p))"
    using inv by (simp add: dom_update pool_inv_def)
  ultimately show ?thesis
    using inv pos fits unfolding pool_inv_def by (simp add: eq distinct_update)
qed

lemma pool_inv_free:
  assumes inv: "pool_inv p"
  shows "pool_inv (snd (free rid req p))"
proof (cases "map_of (regions p) rid")
  case None
  with inv show ?thesis by (simp add: free_def require_region_def)
next
  case (Some r)
  show ?thesis
  proof (cases "owner_task_id r = req")
    case False
    with Some inv show ?thesis by (simp add: free_def require_region_def ensure_owner_def)
  next
    case True
    from Some have "rid \<in> fst ` set (regions p)" by (metis map_of_eq_None_iff option.distinct(1))
    with inv have "rid \<in> fst ` set (storage p)" by (simp add: pool_inv_def)
    then obtain buf where buf: "map_of (storage p) rid = Some buf"
      by (metis map_of_eq_None_iff not_Some_eq)
    have eq: "snd (free rid req p) =
        p\<lparr>used_bytes := used_bytes p - region_size r,
          regions := AList.delete rid (regions p),
          storage := AList.delete rid (storage p)\<rparr>"
      using Some True buf by (simp add: free_def require_region_def ensure_owner_def Let_def)
    have tot: "sum_list (map (\<lambda>kr. region_size (snd kr)) (AList.delete rid (regions p)))
             = used_bytes p - region_size r"
      using inv Some sum_sizes_delete[of "regions p" rid r]
      by (simp add: pool_inv_def regions_total_def)
    have pos: "\<forall>kr \<in> set (AList.delete rid (regions p)). 0 < region_size (snd kr)"
      using inv set_delete_subset[of rid "regions p"] by (auto simp: pool_inv_def)
    have rpos: "0 < region_size r"
      using inv Some by (auto simp: pool_inv_def dest!: map_of_SomeD)
    have keys: "fst ` set (AList.delete rid (storage p)) = fst ` set (AList.delete rid (regions p))"
      using inv by (simp add: keys_delete pool_inv_def)
    have dist: "distinct (map fst (AList.delete rid (regions p)))"
      using inv by (simp add: distinct_delete pool_inv_def)
    have ub: "used_bytes p \<le> max_bytes p" using inv by (simp add: pool_inv_def)
    show ?thesis
      unfolding eq pool_inv_def regions_total_def
      using tot sum_sizes_nonneg[OF pos] rpos keys dist pos ub by simp
  qed
qed

lemma pool_inv_read: "pool_inv p \<Longrightarrow> pool_inv (snd (read rid off len p))"
  by (auto simp: read_def split: sum.splits option.splits)

lemma write_mem_regions:
  "regions (snd (write_mem rid req off data p)) = regions p
   \<and> used_bytes (snd (write_mem rid req off data p)) = used_bytes p
   \<and> max_bytes (snd (write_mem rid req off data p)) = max_bytes p"
  by (auto simp: write_mem_def split: sum.splits option.splits)

lemma write_mem_keys:
  "fst ` set (storage (snd (write_mem rid req off data p))) = fst ` set (storage p)"
proof -
  have "map_of (storage p) rid = Some buf \<Longrightarrow> insert rid (fst ` set (storage p)) = fst ` set (storage p)" for buf
    by (metis insert_absorb map_of_eq_None_iff option.distinct(1))
  then show ?thesis
    by (auto simp: write_mem_def dom_update simp del: insert_absorb split: sum.splits option.splits)
qed

lemma pool_inv_write: "pool_inv p \<Longrightarrow> pool_inv (snd (write_mem rid req off data p))"
  by (simp add: pool_inv_def regions_total_def write_mem_regions write_mem_keys)

lemma pool_inv_after: "pool_inv p \<Longrightarrow> \<not> buffer_fails c p \<Longrightarrow> pool_inv (pool_after c p)"
proof (cases c)
  case (Alloc host_ok rid own sz)
  assume "pool_inv p" "\<not> buffer_fails c p"
  with Alloc show ?thesis using pool_inv_alloc [of p host_ok rid own sz] by simp
qed (simp_all add: pool_inv_free pool_inv_read pool_inv_write)

lemma pool_inv_after_calls:
  "pool_inv p \<Longrightarrow> buffers_supplied cs p \<Longrightarrow> pool_inv (pool_after_calls cs p)"
  unfolding pool_after_calls_def by (induction cs arbitrary: p) (simp_all add: pool_inv_after)

lemma max_bytes_after: "max_bytes (pool_after c p) = max_bytes p"
  by (cases c)
     (auto simp: pool_defs Let_def split: sum.splits option.splits)

lemma max_bytes_after_calls: "max_bytes (pool_after_calls cs p) = max_bytes p"
  unfolding pool_after_calls_def by (induction cs arbitrary: p) (simp_all add: max_bytes_after)

lemma alloc_oom_raises:
  "used_bytes p + sz > max_bytes p \<Longrightarrow>
     \<exists>m. alloc host_ok rid own sz p = (Inl (MemoryErrorLogical m), p)"
  by (simp add: alloc_def)

text \<open>
  Claim C2, as the code has it. The pool built by \<^verbatim>\<open>MemoryPool(max_bytes)\<close> with
  \<open>max_bytes \<ge> 0\<close>, after any sequence of \<^verbatim>\<open>alloc\<close>, \<^verbatim>\<open>free\<close>, \<^verbatim>\<open>read\<close> and \<^verbatim>\<open>write\<close> calls,
  each returning or raising, in which \<^verbatim>\<open>bytearray(size)\<close> never fails: \<open>used_bytes\<close> is the
  sum of the sizes of the regions it holds, \<open>0 \<le> used_bytes \<le> max_bytes\<close>, the capacity is
  the one given, and \<^verbatim>\<open>alloc\<close> raises \<^verbatim>\<open>MemoryErrorLogical\<close> and leaves the pool as it is
  whenever \<open>used_bytes + size > max_bytes\<close>. (Every prefix of such a sequence is such a
  sequence, so this is the state after every call.)
\<close>

theorem pool_accounting:
  assumes "0 \<le> mb" and "buffers_supplied cs (MemoryPool_init mb)"
  shows "let p = pool_after_calls cs (MemoryPool_init mb) in
           used_bytes p = regions_total p \<and> 0 \<le> used_bytes p \<and> used_bytes p \<le> max_bytes p
           \<and> max_bytes p = mb
           \<and> (\<forall>host_ok rid own sz. used_bytes p + sz > max_bytes p \<longrightarrow>
                 (\<exists>m. alloc host_ok rid own sz p = (Inl (MemoryErrorLogical m), p)))"
proof -
  have "pool_inv (pool_after_calls cs (MemoryPool_init mb))"
    using assms by (simp add: pool_inv_init pool_inv_after_calls)
  then show ?thesis
    by (simp add: Let_def pool_inv_def max_bytes_after_calls MemoryPool_init_def alloc_oom_raises)
qed

text \<open>
  The theorem at a pool of 1024 bytes and five calls: an allocation, a write by a task that
  is not the owner (raises), an allocation beyond the capacity (raises), a write by the
  owner, and the release of the region.
\<close>

theorem pool_accounting_witness:
  "(0::int) \<le> 1024
   \<and> buffers_supplied
        [Alloc True ''r1'' ''task-a'' 64, Write ''r1'' ''task-b'' 0 [1],
         Alloc True ''r2'' ''t'' 2000, Write ''r1'' ''task-a'' 0 [1, 2], Free ''r1'' ''task-a'']
        (MemoryPool_init 1024)
   \<and> (let p = pool_after_calls
              [Alloc True ''r1'' ''task-a'' 64, Write ''r1'' ''task-b'' 0 [1],
               Alloc True ''r2'' ''t'' 2000, Write ''r1'' ''task-a'' 0 [1, 2],
               Free ''r1'' ''task-a'']
              (MemoryPool_init 1024)
    in used_bytes p = regions_total p \<and> 0 \<le> used_bytes p \<and> used_bytes p \<le> max_bytes p
       \<and> max_bytes p = 1024
       \<and> (\<forall>host_ok rid own sz. used_bytes p + sz > max_bytes p \<longrightarrow>
             (\<exists>m. alloc host_ok rid own sz p = (Inl (MemoryErrorLogical m), p))))"
proof -
  have pos: "(0::int) \<le> 1024" by simp
  have sup: "buffers_supplied
        [Alloc True ''r1'' ''task-a'' 64, Write ''r1'' ''task-b'' 0 [1],
         Alloc True ''r2'' ''t'' 2000, Write ''r1'' ''task-a'' 0 [1, 2], Free ''r1'' ''task-a'']
        (MemoryPool_init 1024)"
    by (simp add: pool_defs bytearray_def MemoryPool_init_def Let_def)
  from pool_accounting [OF pos sup] pos sup show ?thesis by blast
qed

text \<open>
  Claim C2 as written speaks of every pool and every sequence of calls. First conjunct:
  \<^verbatim>\<open>MemoryPool(-1)\<close> is a pool (the constructor checks nothing, and the configuration takes
  the capacity from the environment as any integer); every allocation raises,
  \<open>used_bytes\<close> stays 0, and \<open>0 \<le> -1\<close> is false. Second conjunct: in a pool of \<open>2\<^sup>6\<^sup>4\<close> bytes,
  \<^verbatim>\<open>alloc('r1', 't', 2**63)\<close> passes the three checks and enters the region, then
  \<^verbatim>\<open>bytearray\<close> raises \<^verbatim>\<open>OverflowError\<close>: the pool holds a region of \<open>2\<^sup>6\<^sup>3\<close> bytes and
  \<open>used_bytes\<close> is 0.
\<close>

theorem pool_accounting_counterexample:
  "\<not> (0 \<le> used_bytes (pool_after_calls [Alloc True ''r1'' ''t'' 1] (MemoryPool_init (- 1)))
      \<and> used_bytes (pool_after_calls [Alloc True ''r1'' ''t'' 1] (MemoryPool_init (- 1)))
          \<le> max_bytes (pool_after_calls [Alloc True ''r1'' ''t'' 1] (MemoryPool_init (- 1))))
   \<and> used_bytes (pool_after_calls [Alloc True ''r1'' ''t'' 9223372036854775808]
                    (MemoryPool_init 18446744073709551616))
      \<noteq> regions_total (pool_after_calls [Alloc True ''r1'' ''t'' 9223372036854775808]
                         (MemoryPool_init 18446744073709551616))"
  by (simp add: pool_after_calls_def MemoryPool_init_def alloc_def bytearray_def regions_total_def
      Let_def)

text \<open>
  Claim C9. If a call of \<^verbatim>\<open>alloc\<close>, \<^verbatim>\<open>free\<close>, \<^verbatim>\<open>read\<close> or \<^verbatim>\<open>write\<close> raises
  \<^verbatim>\<open>MemoryErrorLogical\<close>, the pool after the call is the pool before it: the same
  \<open>used_bytes\<close>, the same regions with their attributes, the same bytes in every buffer.
\<close>

theorem pool_error_atomicity:
  "raises_MemoryErrorLogical c p \<Longrightarrow> pool_after c p = p"
  by (cases c)
     (auto simp: pool_defs bytearray_def Let_def split: sum.splits if_splits option.splits)

text \<open>The theorem at a write by a task that does not own the region.\<close>

theorem pool_error_atomicity_witness:
  "raises_MemoryErrorLogical (Write ''r1'' ''task-b'' 0 [1])
      (snd (alloc True ''r1'' ''task-a'' 64 (MemoryPool_init 1024)))
   \<and> pool_after (Write ''r1'' ''task-b'' 0 [1])
        (snd (alloc True ''r1'' ''task-a'' 64 (MemoryPool_init 1024)))
      = snd (alloc True ''r1'' ''task-a'' 64 (MemoryPool_init 1024))"
proof -
  have h: "raises_MemoryErrorLogical (Write ''r1'' ''task-b'' 0 [1])
      (snd (alloc True ''r1'' ''task-a'' 64 (MemoryPool_init 1024)))"
    by (simp add: pool_defs bytearray_def MemoryPool_init_def Let_def)
  from pool_error_atomicity [OF h] h show ?thesis by simp
qed

text \<open>
  Claim C10. After \<^verbatim>\<open>alloc(region_id, owner, size)\<close> has returned, \<^verbatim>\<open>read(region_id, 0, size)\<close>
  returns \<open>size\<close> bytes, all of them zero, and leaves the pool as it is.
\<close>

theorem alloc_zero_filled:
  "alloc host_ok rid own sz p = (Inr region, p') \<Longrightarrow>
     read rid 0 sz p' = (Inr (replicate (nat sz) 0), p')
     \<and> int (length (replicate (nat sz) (0::byte))) = sz"
  by (auto simp: pool_defs bytearray_def Let_def update_conv' split: if_splits)

text \<open>The theorem at a region of four bytes in an empty pool.\<close>

theorem alloc_zero_filled_witness:
  "alloc True ''r1'' ''task-a'' 4 (MemoryPool_init 1024)
     = (Inr \<lparr>region_id = ''r1'', owner_task_id = ''task-a'', region_size = 4, read_only = False\<rparr>,
        \<lparr>max_bytes = 1024, used_bytes = 4,
         regions = [(''r1'', \<lparr>region_id = ''r1'', owner_task_id = ''task-a'', region_size = 4,
                              read_only = False\<rparr>)],
         storage = [(''r1'', [0, 0, 0, 0])]\<rparr>)
   \<and> read ''r1'' 0 4
        \<lparr>max_bytes = 1024, used_bytes = 4,
         regions = [(''r1'', \<lparr>region_id = ''r1'', owner_task_id = ''task-a'', region_size = 4,
                              read_only = False\<rparr>)],
         storage = [(''r1'', [0, 0, 0, 0])]\<rparr>
      = (Inr [0, 0, 0, 0],
         \<lparr>max_bytes = 1024, used_bytes = 4,
         regions = [(''r1'', \<lparr>region_id = ''r1'', owner_task_id = ''task-a'', region_size = 4,
                              read_only = False\<rparr>)],
         storage = [(''r1'', [0, 0, 0, 0])]\<rparr>)"
proof -
  have h: "alloc True ''r1'' ''task-a'' 4 (MemoryPool_init 1024)
     = (Inr \<lparr>region_id = ''r1'', owner_task_id = ''task-a'', region_size = 4, read_only = False\<rparr>,
        \<lparr>max_bytes = 1024, used_bytes = 4,
         regions = [(''r1'', \<lparr>region_id = ''r1'', owner_task_id = ''task-a'', region_size = 4,
                              read_only = False\<rparr>)],
         storage = [(''r1'', [0, 0, 0, 0])]\<rparr>)"
    by (simp add: alloc_def bytearray_def MemoryPool_init_def Let_def numeral_eq_Suc)
  from alloc_zero_filled [OF h] h show ?thesis by (simp add: numeral_eq_Suc)
qed


section \<open>The scheduler: one call of \<^verbatim>\<open>run_once\<close>\<close>

lemmas sched_defs = run_once_def run_task_quantum_def on_exception_def on_finally_def
  emit_result_def result_message_def send_def select_task_def ready_tasks_def key_gt_def
  deadline_exceeded_def enqueue_from_payload_def Scheduler_init_def Queue_init_def
  MemoryPool_init_def METRICS_init_def Counter_init_def Gauge_init_def counter_inc_def
  gauge_set_def region_count_def payload_of_def clock_at_def one_task_def

lemma ready_tasks_set:
  "set (ready_tasks ts) = {i. i < length ts \<and> state (ts ! i) \<in> {PENDING, WAITING}}"
  by (auto simp: ready_tasks_def)

lemma key_gt_trans_le:
  "\<not> key_gt a b \<Longrightarrow> \<not> key_gt b c \<Longrightarrow> \<not> key_gt a c"
  by (auto simp: key_gt_def)

lemma key_gt_imp_not: "key_gt a b \<Longrightarrow> \<not> key_gt b a"
  by (auto simp: key_gt_def)

lemma max_by_key_mem: "max_by_key ts b rest \<in> set (b # rest)"
  by (induction rest arbitrary: b) (auto split: if_splits)

lemma max_by_key_ge_start: "\<not> key_gt (ts ! b) (ts ! max_by_key ts b rest)"
proof (induction rest arbitrary: b)
  case Nil
  show ?case by (simp add: key_gt_def)
next
  case (Cons i rest)
  show ?case
  proof (cases "key_gt (ts ! i) (ts ! b)")
    case True
    then have "\<not> key_gt (ts ! b) (ts ! i)" by (rule key_gt_imp_not)
    from key_gt_trans_le [OF this Cons.IH [of i]] True show ?thesis
      by simp
  next
    case False
    with Cons.IH [of b] show ?thesis by simp
  qed
qed

lemma max_by_key_ge_rest:
  "j \<in> set rest \<Longrightarrow> \<not> key_gt (ts ! j) (ts ! max_by_key ts b rest)"
proof (induction rest arbitrary: b)
  case Nil
  then show ?case by simp
next
  case (Cons i rest)
  let ?b' = "if key_gt (ts ! i) (ts ! b) then i else b"
  show ?case
  proof (cases "j = i")
    case True
    have "\<not> key_gt (ts ! i) (ts ! ?b')" by (simp add: key_gt_def)
    moreover have "\<not> key_gt (ts ! ?b') (ts ! max_by_key ts ?b' rest)"
      by (rule max_by_key_ge_start)
    ultimately have "\<not> key_gt (ts ! i) (ts ! max_by_key ts ?b' rest)"
      by (rule key_gt_trans_le)
    then show ?thesis using True by simp
  next
    case False
    with Cons.prems have "j \<in> set rest" by simp
    from Cons.IH [OF this, of ?b'] show ?thesis by simp
  qed
qed

lemma max_by_key_maximal:
  "j \<in> set (b # rest) \<Longrightarrow> \<not> key_gt (ts ! j) (ts ! max_by_key ts b rest)"
  using max_by_key_ge_start max_by_key_ge_rest by auto

lemma select_task_None: "select_task ts = None \<longleftrightarrow> ready_tasks ts = []"
  by (simp add: select_task_def split: list.splits)

lemma select_task_Some:
  assumes "select_task ts = Some i"
  shows "i \<in> set (ready_tasks ts)"
    and "j \<in> set (ready_tasks ts) \<Longrightarrow> \<not> key_gt (ts ! j) (ts ! i)"
proof -
  from assms obtain b rest where r: "ready_tasks ts = b # rest" and i: "i = max_by_key ts b rest"
    by (auto simp: select_task_def split: list.splits)
  show "i \<in> set (ready_tasks ts)" using max_by_key_mem [of ts b rest] r i by simp
  show "j \<in> set (ready_tasks ts) \<Longrightarrow> \<not> key_gt (ts ! j) (ts ! i)"
    using max_by_key_maximal [of j b rest ts] r i by simp
qed

text \<open>What \<^verbatim>\<open>_emit_result\<close> and the \<^verbatim>\<open>finally\<close> block leave alone, and the two outcomes of a send.\<close>

lemma emit_result_form: "\<exists>r q. emit_result t s = (r, s\<lparr>result_queue := q\<rparr>)"
  by (cases "send (result_queue s) (result_message t)") (auto simp: emit_result_def)

lemma on_finally_frame:
  "tasks (on_finally clk x) = tasks x \<and> result_queue (on_finally clk x) = result_queue x"
  by (simp add: on_finally_def Let_def)

lemma emit_result_taken:
  "next_put_taken (result_queue s) \<Longrightarrow>
   emit_result t s =
     (Inr (), s\<lparr>result_queue := (result_queue s)
                  \<lparr>items := items (result_queue s) @ [result_message t],
                   put_outcomes := tl (put_outcomes (result_queue s))\<rparr>\<rparr>)"
  by (auto simp: emit_result_def send_def next_put_taken_def split: list.splits)

lemma emit_result_refused:
  "\<not> next_put_taken (result_queue s) \<Longrightarrow>
   emit_result t s =
     (Inl (IPCError ''send failed: ''),
      s\<lparr>result_queue := (result_queue s)
            \<lparr>put_outcomes := tl (put_outcomes (result_queue s))\<rparr>\<rparr>)"
  by (auto simp: emit_result_def send_def next_put_taken_def split: list.splits)

text \<open>
  \<^verbatim>\<open>run_once\<close> leaves the pool as the step hook left it, or as it was when no step ran:
  nothing in the scheduler frees a region.
\<close>

lemma on_exception_memory: "memory (snd (on_exception e i s)) = memory s"
proof -
  let ?t = "(tasks s ! i)\<lparr>state := FAILED, last_error := Some (str e)\<rparr>"
  let ?s2 = "s\<lparr>tasks := (tasks s)[i := ?t],
               metrics := (metrics s)\<lparr>tasks_failed := counter_inc 1 (tasks_failed (metrics s))\<rparr>\<rparr>"
  obtain r q where "emit_result ?t ?s2 = (r, ?s2\<lparr>result_queue := q\<rparr>)"
    using emit_result_form by blast
  then show ?thesis
    by (cases r) (simp_all add: on_exception_def Let_def)
qed

lemma on_finally_memory: "memory (on_finally clk s) = memory s"
  by (simp add: on_finally_def Let_def)

lemma run_task_quantum_memory:
  "memory (snd (run_task_quantum h clk i s))
     = snd (snd (execute_step h ((tasks s ! i)\<lparr>state := RUNNING\<rparr>) (memory s)))"
proof -
  obtain raised task1 pool1 where
    st: "execute_step h ((tasks s ! i)\<lparr>state := RUNNING\<rparr>) (memory s) = (raised, task1, pool1)"
    by (metis prod_cases3)
  let ?s1 = "s\<lparr>tasks := (tasks s)[i := task1], memory := pool1\<rparr>"
  let ?t2 = "task1\<lparr>state := DONE\<rparr>"
  let ?s3 = "?s1\<lparr>tasks := (tasks ?s1)[i := ?t2],
                 metrics := (metrics ?s1)\<lparr>tasks_completed :=
                    counter_inc 1 (tasks_completed (metrics ?s1))\<rparr>\<rparr>"
  obtain r q where em: "emit_result ?t2 ?s3 = (r, ?s3\<lparr>result_queue := q\<rparr>)"
    using emit_result_form by blast
  show ?thesis
  proof (cases raised)
    case (Some exc)
    then show ?thesis
      by (simp add: run_task_quantum_def Let_def st on_finally_memory on_exception_memory
          split_beta)
  next
    case None
    show ?thesis
    proof (cases "is_task_complete h task1")
      case False
      with None show ?thesis
        by (simp add: run_task_quantum_def Let_def st on_finally_memory)
    next
      case True
      with None em show ?thesis
        by (cases r)
           (simp_all add: run_task_quantum_def Let_def st on_finally_memory on_exception_memory
              split_beta)
    qed
  qed
qed

lemma run_once_memory:
  "memory (snd (run_once h clk s)) = memory s
   \<or> (\<exists>i < length (tasks s).
         memory (snd (run_once h clk s))
           = snd (snd (execute_step h ((tasks s ! i)\<lparr>state := RUNNING\<rparr>) (memory s))))"
proof (cases "select_task (tasks s)")
  case None
  then show ?thesis by (simp add: run_once_def)
next
  case (Some i)
  from select_task_Some(1) [OF Some] have i: "i < length (tasks s)"
    by (simp add: ready_tasks_set)
  show ?thesis
  proof (cases "deadline_exceeded clk (tasks s ! i)")
    case False
    with Some i show ?thesis
      using run_task_quantum_memory [of h clk i s] by (auto simp: run_once_def Let_def)
  next
    case True
    let ?t = "(tasks s ! i)\<lparr>state := CANCELLED\<rparr>"
    let ?s2 = "s\<lparr>tasks := (tasks s)[i := ?t],
               metrics := (metrics s)\<lparr>tasks_cancelled := counter_inc 1 (tasks_cancelled (metrics s))\<rparr>\<rparr>"
    obtain r q where "emit_result ?t ?s2 = (r, ?s2\<lparr>result_queue := q\<rparr>)"
      using emit_result_form by blast
    with Some True show ?thesis
      by (cases r) (simp_all add: run_once_def Let_def)
  qed
qed

text \<open>
  What \<^verbatim>\<open>run_once\<close> does with the task it has selected, at position \<open>i\<close>, in each of its
  branches: the deadline has passed; the step raised; the step returned and the task is
  not complete; it is complete and the put is taken; it is complete and the put raises,
  which sends the call through the \<^verbatim>\<open>except\<close> block and to a second put.
\<close>

lemma on_exception_sends:
  "sends_result_of ((tasks x ! i)\<lparr>state := FAILED, last_error := Some (str exc)\<rparr>) i x
     (result_queue x) (on_exception exc i x)"
  by (cases "next_put_taken (result_queue x)")
     (simp_all add: sends_result_of_def on_exception_def Let_def emit_result_taken
        emit_result_refused)

lemma run_task_quantum_selected:
  assumes i: "i < length (tasks s)"
      and st: "execute_step h ((tasks s ! i)\<lparr>state := RUNNING\<rparr>) (memory s) = (raised, task1, pool1)"
  shows "memory (snd (run_task_quantum h clk i s)) = pool1
       \<and> (case raised of
             Some exc \<Rightarrow>
               sends_result_of (task1\<lparr>state := FAILED, last_error := Some (str exc)\<rparr>) i s
                 (result_queue s) (run_task_quantum h clk i s)
           | None \<Rightarrow>
               if \<not> is_task_complete h task1
               then fst (run_task_quantum h clk i s) = Inr ()
                  \<and> tasks (snd (run_task_quantum h clk i s)) = (tasks s)[i := task1]
                  \<and> items (result_queue (snd (run_task_quantum h clk i s)))
                      = items (result_queue s)
               else if next_put_taken (result_queue s)
               then sends_result_of (task1\<lparr>state := DONE\<rparr>) i s (result_queue s)
                      (run_task_quantum h clk i s)
               else sends_result_of
                      (task1\<lparr>state := FAILED, last_error := Some ''send failed: ''\<rparr>) i s
                      ((result_queue s)\<lparr>put_outcomes := tl (put_outcomes (result_queue s))\<rparr>)
                      (run_task_quantum h clk i s))"
proof -
  have mem: "memory (snd (run_task_quantum h clk i s)) = pool1"
    using run_task_quantum_memory [of h clk i s] st by simp
  let ?s1 = "s\<lparr>tasks := (tasks s)[i := task1], memory := pool1\<rparr>"
  show ?thesis
  proof (cases raised)
    case (Some exc)
    have "sends_result_of (task1\<lparr>state := FAILED, last_error := Some (str exc)\<rparr>) i ?s1
            (result_queue ?s1) (on_exception exc i ?s1)"
      using on_exception_sends [where x = ?s1 and i = i and exc = exc] i by simp
    then have "sends_result_of (task1\<lparr>state := FAILED, last_error := Some (str exc)\<rparr>) i s
            (result_queue s) (fst (on_exception exc i ?s1), on_finally clk (snd (on_exception exc i ?s1)))"
      using i by (simp add: sends_result_of_def on_finally_frame)
    with Some mem show ?thesis
      by (simp add: run_task_quantum_def Let_def st split_beta)
  next
    case None
    show ?thesis
    proof (cases "is_task_complete h task1")
      case False
      with None mem show ?thesis
        by (simp add: run_task_quantum_def Let_def st on_finally_frame)
    next
      case True
      show ?thesis
      proof (cases "next_put_taken (result_queue s)")
        case taken: True
        with None True mem i show ?thesis
          by (simp add: run_task_quantum_def Let_def st on_finally_frame emit_result_taken
              sends_result_of_def)
      next
        case refused: False
        let ?s4 = "s\<lparr>memory := pool1, tasks := (tasks s)[i := task1\<lparr>state := DONE\<rparr>],
                      metrics := (metrics s)\<lparr>tasks_completed :=
                         counter_inc 1 (tasks_completed (metrics s))\<rparr>,
                      result_queue := (result_queue s)
                         \<lparr>put_outcomes := tl (put_outcomes (result_queue s))\<rparr>\<rparr>"
        have run: "run_task_quantum h clk i s
            = (fst (on_exception (IPCError ''send failed: '') i ?s4),
               on_finally clk (snd (on_exception (IPCError ''send failed: '') i ?s4)))"
          using None True refused
          by (simp add: run_task_quantum_def Let_def st emit_result_refused split_beta)
        have "sends_result_of
                ((tasks ?s4 ! i)\<lparr>state := FAILED, last_error := Some (str (IPCError ''send failed: ''))\<rparr>)
                i ?s4 (result_queue ?s4) (on_exception (IPCError ''send failed: '') i ?s4)"
          by (rule on_exception_sends)
        then have "sends_result_of
                (task1\<lparr>state := FAILED, last_error := Some ''send failed: ''\<rparr>) i s
                ((result_queue s)\<lparr>put_outcomes := tl (put_outcomes (result_queue s))\<rparr>)
                (run_task_quantum h clk i s)"
          using i by (simp add: run sends_result_of_def on_finally_frame)
        with None True refused mem show ?thesis by simp
      qed
    qed
  qed
qed

lemma run_once_selected:
  assumes sel: "select_task (tasks s) = Some i"
  shows "if deadline_exceeded clk (tasks s ! i)
         then memory (snd (run_once h clk s)) = memory s
            \<and> sends_result_of ((tasks s ! i)\<lparr>state := CANCELLED\<rparr>) i s (result_queue s)
                 (run_once h clk s)
         else (case execute_step h ((tasks s ! i)\<lparr>state := RUNNING\<rparr>) (memory s) of
                 (raised, task1, pool1) \<Rightarrow>
                   memory (snd (run_once h clk s)) = pool1
                 \<and> (case raised of
                       Some exc \<Rightarrow>
                         sends_result_of (task1\<lparr>state := FAILED, last_error := Some (str exc)\<rparr>)
                           i s (result_queue s) (run_once h clk s)
                     | None \<Rightarrow>
                         if \<not> is_task_complete h task1
                         then fst (run_once h clk s) = Inr ()
                            \<and> tasks (snd (run_once h clk s)) = (tasks s)[i := task1]
                            \<and> items (result_queue (snd (run_once h clk s)))
                                = items (result_queue s)
                         else if next_put_taken (result_queue s)
                         then sends_result_of (task1\<lparr>state := DONE\<rparr>) i s (result_queue s)
                                (run_once h clk s)
                         else sends_result_of
                                (task1\<lparr>state := FAILED, last_error := Some ''send failed: ''\<rparr>)
                                i s
                                ((result_queue s)\<lparr>put_outcomes :=
                                    tl (put_outcomes (result_queue s))\<rparr>)
                                (run_once h clk s)))"
proof -
  from select_task_Some(1) [OF sel] have i: "i < length (tasks s)"
    by (simp add: ready_tasks_set)
  show ?thesis
  proof (cases "deadline_exceeded clk (tasks s ! i)")
    case True
    then show ?thesis
      using sel i
      by (cases "next_put_taken (result_queue s)")
         (simp_all add: run_once_def Let_def emit_result_taken emit_result_refused
            sends_result_of_def)
  next
    case False
    obtain raised task1 pool1 where
      st: "execute_step h ((tasks s ! i)\<lparr>state := RUNNING\<rparr>) (memory s) = (raised, task1, pool1)"
      by (metis prod_cases3)
    have run: "run_once h clk s = run_task_quantum h clk i s"
      using sel False by (simp add: run_once_def Let_def)
    show ?thesis
      unfolding run using run_task_quantum_selected [OF i st, of clk] False
      by (simp add: st split del: if_split)
  qed
qed

text \<open>
  Claim C4. \<^verbatim>\<open>run_once\<close> selects nothing exactly when no task is \<^verbatim>\<open>PENDING\<close> or \<^verbatim>\<open>WAITING\<close>,
  and then returns with the scheduler as it was. Otherwise the task it selects is
  \<^verbatim>\<open>PENDING\<close> or \<^verbatim>\<open>WAITING\<close>, no \<^verbatim>\<open>PENDING\<close> or \<^verbatim>\<open>WAITING\<close> task has a higher priority,
  none of the same priority was created earlier, and it is the selected task that the call
  works on: when its deadline has passed it is the task cancelled and reported; otherwise
  the step hook runs on it (made \<^verbatim>\<open>RUNNING\<close>) and the pool, the pool is left as the hook
  left it, and the task as the hook left it is the one that stays at its position, or is
  made \<^verbatim>\<open>DONE\<close> or \<^verbatim>\<open>FAILED\<close>, reported and removed.
\<close>

theorem run_once_selection:
  "(select_task (tasks s) = None \<longleftrightarrow>
      (\<forall>j < length (tasks s). state (tasks s ! j) \<notin> {PENDING, WAITING}))
   \<and> (select_task (tasks s) = None \<longrightarrow> run_once h clk s = (Inr (), s))
   \<and> (\<forall>i. select_task (tasks s) = Some i \<longrightarrow>
         i < length (tasks s) \<and> state (tasks s ! i) \<in> {PENDING, WAITING}
         \<and> (\<forall>j < length (tasks s). state (tasks s ! j) \<in> {PENDING, WAITING} \<longrightarrow>
               priority (meta (tasks s ! j)) \<le> priority (meta (tasks s ! i))
               \<and> (priority (meta (tasks s ! j)) = priority (meta (tasks s ! i)) \<longrightarrow>
                    created_at (meta (tasks s ! i)) \<le> created_at (meta (tasks s ! j))))
         \<and> (if deadline_exceeded clk (tasks s ! i)
            then memory (snd (run_once h clk s)) = memory s
               \<and> sends_result_of ((tasks s ! i)\<lparr>state := CANCELLED\<rparr>) i s (result_queue s)
                    (run_once h clk s)
            else (case execute_step h ((tasks s ! i)\<lparr>state := RUNNING\<rparr>) (memory s) of
                    (raised, task1, pool1) \<Rightarrow>
                      memory (snd (run_once h clk s)) = pool1
                    \<and> (case raised of
                          Some exc \<Rightarrow>
                            sends_result_of
                              (task1\<lparr>state := FAILED, last_error := Some (str exc)\<rparr>)
                              i s (result_queue s) (run_once h clk s)
                        | None \<Rightarrow>
                            if \<not> is_task_complete h task1
                            then fst (run_once h clk s) = Inr ()
                               \<and> tasks (snd (run_once h clk s)) = (tasks s)[i := task1]
                               \<and> items (result_queue (snd (run_once h clk s)))
                                   = items (result_queue s)
                            else if next_put_taken (result_queue s)
                            then sends_result_of (task1\<lparr>state := DONE\<rparr>) i s (result_queue s)
                                   (run_once h clk s)
                            else sends_result_of
                                   (task1\<lparr>state := FAILED, last_error := Some ''send failed: ''\<rparr>)
                                   i s
                                   ((result_queue s)\<lparr>put_outcomes :=
                                       tl (put_outcomes (result_queue s))\<rparr>)
                                   (run_once h clk s)))))"
proof (intro conjI allI impI)
  show "select_task (tasks s) = None \<longleftrightarrow>
      (\<forall>j < length (tasks s). state (tasks s ! j) \<notin> {PENDING, WAITING})"
    using ready_tasks_set [of "tasks s"]
    by (auto simp: select_task_None simp flip: set_empty)
next
  assume "select_task (tasks s) = None"
  then show "run_once h clk s = (Inr (), s)" by (simp add: run_once_def)
next
  fix i assume sel: "select_task (tasks s) = Some i"
  from select_task_Some(1) [OF sel] show "i < length (tasks s)"
    by (simp add: ready_tasks_set)
  from select_task_Some(1) [OF sel] show "state (tasks s ! i) \<in> {PENDING, WAITING}"
    by (simp add: ready_tasks_set)
  from sel show "if deadline_exceeded clk (tasks s ! i)
            then memory (snd (run_once h clk s)) = memory s
               \<and> sends_result_of ((tasks s ! i)\<lparr>state := CANCELLED\<rparr>) i s (result_queue s)
                    (run_once h clk s)
            else (case execute_step h ((tasks s ! i)\<lparr>state := RUNNING\<rparr>) (memory s) of
                    (raised, task1, pool1) \<Rightarrow>
                      memory (snd (run_once h clk s)) = pool1
                    \<and> (case raised of
                          Some exc \<Rightarrow>
                            sends_result_of
                              (task1\<lparr>state := FAILED, last_error := Some (str exc)\<rparr>)
                              i s (result_queue s) (run_once h clk s)
                        | None \<Rightarrow>
                            if \<not> is_task_complete h task1
                            then fst (run_once h clk s) = Inr ()
                               \<and> tasks (snd (run_once h clk s)) = (tasks s)[i := task1]
                               \<and> items (result_queue (snd (run_once h clk s)))
                                   = items (result_queue s)
                            else if next_put_taken (result_queue s)
                            then sends_result_of (task1\<lparr>state := DONE\<rparr>) i s (result_queue s)
                                   (run_once h clk s)
                            else sends_result_of
                                   (task1\<lparr>state := FAILED, last_error := Some ''send failed: ''\<rparr>)
                                   i s
                                   ((result_queue s)\<lparr>put_outcomes :=
                                       tl (put_outcomes (result_queue s))\<rparr>)
                                   (run_once h clk s)))"
    by (rule run_once_selected)
next
  fix i j assume sel: "select_task (tasks s) = Some i"
    and j: "j < length (tasks s)" "state (tasks s ! j) \<in> {PENDING, WAITING}"
  then have "j \<in> set (ready_tasks (tasks s))" by (simp add: ready_tasks_set)
  from select_task_Some(2) [OF sel this]
  show "priority (meta (tasks s ! j)) \<le> priority (meta (tasks s ! i))"
    by (auto simp: key_gt_def)
next
  fix i j assume sel: "select_task (tasks s) = Some i"
    and j: "j < length (tasks s)" "state (tasks s ! j) \<in> {PENDING, WAITING}"
    and eq: "priority (meta (tasks s ! j)) = priority (meta (tasks s ! i))"
  then have "j \<in> set (ready_tasks (tasks s))" by (simp add: ready_tasks_set)
  from select_task_Some(2) [OF sel this] eq
  show "created_at (meta (tasks s ! i)) \<le> created_at (meta (tasks s ! j))"
    by (auto simp: key_gt_def)
qed

text \<open>
  The theorem at two pending tasks, \<^verbatim>\<open>a\<close> of priority 1 created at time 100 and \<^verbatim>\<open>b\<close> of
  priority 99 created at time 101: the second is selected, and \<^verbatim>\<open>run_once\<close> with the hooks
  of the source reports \<^verbatim>\<open>b\<close> and leaves \<^verbatim>\<open>a\<close> in the list.
\<close>

theorem run_once_selection_witness:
  "select_task (tasks two_tasks) = Some 1
   \<and> priority (meta (tasks two_tasks ! 0)) \<le> priority (meta (tasks two_tasks ! 1))
   \<and> fst (run_once default_hooks (clock_at 102) two_tasks) = Inr ()
   \<and> result_ids (result_queue (snd (run_once default_hooks (clock_at 102) two_tasks))) = [''b'']
   \<and> task_ids (tasks (snd (run_once default_hooks (clock_at 102) two_tasks))) = [''a'']"
proof -
  have sel: "select_task (tasks two_tasks) = Some 1"
    by (simp add: sched_defs two_tasks_def Let_def)
  have len: "0 < length (tasks two_tasks)"
    and st: "state (tasks two_tasks ! 0) \<in> {PENDING, WAITING}"
    by (simp_all add: sched_defs two_tasks_def Let_def)
  have nd: "\<not> deadline_exceeded (clock_at 102) (tasks two_tasks ! 1)"
    by (simp add: sched_defs two_tasks_def Let_def)
  have step: "execute_step default_hooks ((tasks two_tasks ! 1)\<lparr>state := RUNNING\<rparr>)
                (memory two_tasks)
              = (None, (tasks two_tasks ! 1)\<lparr>state := RUNNING\<rparr>, memory two_tasks)"
    by (simp add: default_hooks_def)
  have compl: "is_task_complete default_hooks ((tasks two_tasks ! 1)\<lparr>state := RUNNING\<rparr>)"
    by (simp add: default_hooks_def)
  have taken: "next_put_taken (result_queue two_tasks)"
    by (simp add: sched_defs two_tasks_def Let_def next_put_taken_def)
  note inst = run_once_selection [of two_tasks default_hooks "clock_at 102"]
  from inst sel len st
  have prio: "priority (meta (tasks two_tasks ! 0)) \<le> priority (meta (tasks two_tasks ! 1))"
    by blast
  from inst sel have "if deadline_exceeded (clock_at 102) (tasks two_tasks ! 1)
            then memory (snd (run_once default_hooks (clock_at 102) two_tasks)) = memory two_tasks
               \<and> sends_result_of ((tasks two_tasks ! 1)\<lparr>state := CANCELLED\<rparr>) 1 two_tasks
                    (result_queue two_tasks) (run_once default_hooks (clock_at 102) two_tasks)
            else (case execute_step default_hooks ((tasks two_tasks ! 1)\<lparr>state := RUNNING\<rparr>)
                         (memory two_tasks) of
                    (raised, task1, pool1) \<Rightarrow>
                      memory (snd (run_once default_hooks (clock_at 102) two_tasks)) = pool1
                    \<and> (case raised of
                          Some exc \<Rightarrow>
                            sends_result_of
                              (task1\<lparr>state := FAILED, last_error := Some (str exc)\<rparr>)
                              1 two_tasks (result_queue two_tasks)
                              (run_once default_hooks (clock_at 102) two_tasks)
                        | None \<Rightarrow>
                            if \<not> is_task_complete default_hooks task1
                            then fst (run_once default_hooks (clock_at 102) two_tasks) = Inr ()
                               \<and> tasks (snd (run_once default_hooks (clock_at 102) two_tasks))
                                   = (tasks two_tasks)[1 := task1]
                               \<and> items (result_queue (snd (run_once default_hooks (clock_at 102) two_tasks)))
                                   = items (result_queue two_tasks)
                            else if next_put_taken (result_queue two_tasks)
                            then sends_result_of (task1\<lparr>state := DONE\<rparr>) 1 two_tasks
                                   (result_queue two_tasks)
                                   (run_once default_hooks (clock_at 102) two_tasks)
                            else sends_result_of
                                   (task1\<lparr>state := FAILED, last_error := Some ''send failed: ''\<rparr>)
                                   1 two_tasks
                                   ((result_queue two_tasks)\<lparr>put_outcomes :=
                                       tl (put_outcomes (result_queue two_tasks))\<rparr>)
                                   (run_once default_hooks (clock_at 102) two_tasks)))"
    by blast
  with nd step compl taken
  have "sends_result_of ((tasks two_tasks ! 1)\<lparr>state := DONE\<rparr>) 1 two_tasks
          (result_queue two_tasks) (run_once default_hooks (clock_at 102) two_tasks)"
    by simp
  with taken have "fst (run_once default_hooks (clock_at 102) two_tasks) = Inr ()
     \<and> tasks (snd (run_once default_hooks (clock_at 102) two_tasks))
         = remove1 ((tasks two_tasks ! 1)\<lparr>state := DONE\<rparr>)
             ((tasks two_tasks)[1 := (tasks two_tasks ! 1)\<lparr>state := DONE\<rparr>])
     \<and> items (result_queue (snd (run_once default_hooks (clock_at 102) two_tasks)))
         = items (result_queue two_tasks) @ [result_message ((tasks two_tasks ! 1)\<lparr>state := DONE\<rparr>)]"
    by (simp add: sends_result_of_def)
  then have "fst (run_once default_hooks (clock_at 102) two_tasks) = Inr ()
   \<and> result_ids (result_queue (snd (run_once default_hooks (clock_at 102) two_tasks))) = [''b'']
   \<and> task_ids (tasks (snd (run_once default_hooks (clock_at 102) two_tasks))) = [''a'']"
    by (simp add: result_ids_def task_ids_def result_message_def two_tasks_def
        enqueue_from_payload_def Scheduler_init_def Queue_init_def payload_of_def Let_def)
  with sel prio show ?thesis by blast
qed


section \<open>The scheduler: deadline cancellation\<close>

lemma mset_update_minus:
  "i < length xs \<Longrightarrow> mset (xs[i := x]) - {#x#} = mset xs - {#xs ! i#}"
  by (simp add: mset_update)

lemma length_remove1_update:
  "i < length xs \<Longrightarrow> length (remove1 x (xs[i := x])) = length xs - 1"
  by (simp add: length_remove1 set_update_memI)

text \<open>
  Claim C3, as the code has it. When the task \<^verbatim>\<open>run_once\<close> selects has a deadline that is
  strictly in the past: the call does not depend on the step hook or the completion
  predicate (no step runs, the task is never made \<^verbatim>\<open>RUNNING\<close>), the pool is untouched,
  \<^verbatim>\<open>tasks_cancelled\<close> is incremented and no other task counter moves. If the result queue
  takes the message, \<^verbatim>\<open>run_once\<close> returns, the queue has one more message (a
  \<^verbatim>\<open>TASK_RESULT\<close> with the task's id and state \<^verbatim>\<open>CANCELLED\<close>), the task list has lost the
  selected task and nothing else, and \<^verbatim>\<open>worker_queue_depth\<close> is the new length. If the put
  raises, \<^verbatim>\<open>run_once\<close> raises \<^verbatim>\<open>IPCError\<close>, nothing is in the queue, the task is still in
  the list, in state \<^verbatim>\<open>CANCELLED\<close>, and \<^verbatim>\<open>worker_queue_depth\<close> is what it was.
\<close>

theorem deadline_cancellation:
  assumes sel: "select_task (tasks s) = Some i"
      and dl: "deadline (meta (tasks s ! i)) = Some d"
      and past: "d < now clk"
  shows "let task' = (tasks s ! i)\<lparr>state := CANCELLED\<rparr>;
             r = fst (run_once h clk s);
             s' = snd (run_once h clk s)
         in run_once h clk s = run_once h' clk s
          \<and> memory s' = memory s
          \<and> tasks_cancelled (metrics s') = counter_inc 1 (tasks_cancelled (metrics s))
          \<and> tasks_completed (metrics s') = tasks_completed (metrics s)
          \<and> tasks_failed (metrics s') = tasks_failed (metrics s)
          \<and> (if next_put_taken (result_queue s)
              then r = Inr ()
                 \<and> items (result_queue s') = items (result_queue s) @ [result_message task']
                 \<and> msg_type (result_message task') = TASK_RESULT
                 \<and> result_id (msg_payload (result_message task')) = task_id (meta (tasks s ! i))
                 \<and> result_state (msg_payload (result_message task')) = ''CANCELLED''
                 \<and> tasks s' = remove1 task' ((tasks s)[i := task'])
                 \<and> mset (tasks s') = mset (tasks s) - {#tasks s ! i#}
                 \<and> length (tasks s') = length (tasks s) - 1
                 \<and> gauge_value (worker_queue_depth (metrics s')) = real (length (tasks s'))
              else r = Inl (IPCError ''send failed: '')
                 \<and> items (result_queue s') = items (result_queue s)
                 \<and> tasks s' = (tasks s)[i := task']
                 \<and> worker_queue_depth (metrics s') = worker_queue_depth (metrics s))"
proof -
  from select_task_Some(1) [OF sel] have i: "i < length (tasks s)"
    by (simp add: ready_tasks_set)
  have ex: "deadline_exceeded clk (tasks s ! i)"
    using dl past by (simp add: deadline_exceeded_def)
  show ?thesis
  proof (cases "next_put_taken (result_queue s)")
    case True
    then show ?thesis
      using sel ex i
      by (simp add: run_once_def Let_def emit_result_taken result_message_def gauge_set_def
          mset_update_minus length_remove1_update)
  next
    case False
    then show ?thesis
      using sel ex i
      by (simp add: run_once_def Let_def emit_result_refused)
  qed
qed

text \<open>
  The theorem at one task with deadline 9, selected at time 10, and a queue that takes the
  message.
\<close>

theorem deadline_cancellation_witness:
  "select_task (tasks (one_task (Some 9) [])) = Some 0
   \<and> deadline (meta (tasks (one_task (Some 9) []) ! 0)) = Some 9
   \<and> (9::real) < now (clock_at 10)
   \<and> run_once yielding_hooks (clock_at 10) (one_task (Some 9) [])
       = run_once default_hooks (clock_at 10) (one_task (Some 9) [])
   \<and> fst (run_once yielding_hooks (clock_at 10) (one_task (Some 9) [])) = Inr ()
   \<and> length (tasks (snd (run_once yielding_hooks (clock_at 10) (one_task (Some 9) [])))) = 0
   \<and> gauge_value (worker_queue_depth (metrics
         (snd (run_once yielding_hooks (clock_at 10) (one_task (Some 9) []))))) = 0"
proof -
  have sel: "select_task (tasks (one_task (Some 9) [])) = Some 0"
    by (simp add: sched_defs Let_def)
  have dl: "deadline (meta (tasks (one_task (Some 9) []) ! 0)) = Some 9"
    by (simp add: sched_defs Let_def)
  have past: "(9::real) < now (clock_at 10)"
    by (simp add: clock_at_def)
  have taken: "next_put_taken (result_queue (one_task (Some 9) []))"
    by (simp add: sched_defs Let_def next_put_taken_def)
  have len: "length (tasks (one_task (Some 9) [])) = 1"
    by (simp add: sched_defs Let_def)
  from deadline_cancellation [OF sel dl past, of yielding_hooks default_hooks]
  have indep: "run_once yielding_hooks (clock_at 10) (one_task (Some 9) [])
       = run_once default_hooks (clock_at 10) (one_task (Some 9) [])"
    by (simp add: Let_def)
  from deadline_cancellation [OF sel dl past, of yielding_hooks yielding_hooks] taken len
  have "fst (run_once yielding_hooks (clock_at 10) (one_task (Some 9) [])) = Inr ()
   \<and> length (tasks (snd (run_once yielding_hooks (clock_at 10) (one_task (Some 9) [])))) = 0
   \<and> gauge_value (worker_queue_depth (metrics
         (snd (run_once yielding_hooks (clock_at 10) (one_task (Some 9) []))))) = 0"
    by (simp add: Let_def sched_defs)
  with sel dl past indep show ?thesis by blast
qed

text \<open>
  Claim C3 as written promises the result, the removal and the gauge for every such task.
  With a result queue whose put raises (full for the whole timeout, or closed),
  \<^verbatim>\<open>run_once\<close> raises \<^verbatim>\<open>IPCError\<close> after the increment: no result is in the queue, the
  task is still in the list, and the gauge still shows 1.
\<close>

theorem deadline_cancellation_counterexample:
  "fst (run_once default_hooks (clock_at 10) (one_task (Some 9) [False]))
     = Inl (IPCError ''send failed: '')
   \<and> items (result_queue (snd (run_once default_hooks (clock_at 10) (one_task (Some 9) [False])))) = []
   \<and> map (\<lambda>t. (task_id (meta t), state t))
        (tasks (snd (run_once default_hooks (clock_at 10) (one_task (Some 9) [False]))))
       = [(''t1'', CANCELLED)]
   \<and> gauge_value (worker_queue_depth (metrics
        (snd (run_once default_hooks (clock_at 10) (one_task (Some 9) [False]))))) = 1"
  by (simp add: sched_defs Let_def default_hooks_def)

section \<open>The scheduler: a step that does not complete the task\<close>

text \<open>
  Claim C7, as the code has it. When the step hook returns and the completion predicate
  says no: \<^verbatim>\<open>run_once\<close> returns, the task stays at its place in the list exactly as the hook
  left it, nothing is put on the result queue, and the task is among the ready tasks of the
  next \<^verbatim>\<open>run_once\<close> if and only if the hook left it \<^verbatim>\<open>PENDING\<close> or \<^verbatim>\<open>WAITING\<close>. With the
  completion predicate of the source the hook has left it \<^verbatim>\<open>WAITING\<close>.
\<close>

theorem incomplete_step_keeps_task:
  assumes sel: "select_task (tasks s) = Some i"
      and nd: "\<not> deadline_exceeded clk (tasks s ! i)"
      and step: "execute_step h ((tasks s ! i)\<lparr>state := RUNNING\<rparr>) (memory s) = (None, task1, pool1)"
      and inc: "\<not> is_task_complete h task1"
  shows "let s' = snd (run_once h clk s) in
           fst (run_once h clk s) = Inr ()
         \<and> tasks s' = (tasks s)[i := task1]
         \<and> result_queue s' = result_queue s
         \<and> (i \<in> set (ready_tasks (tasks s')) \<longleftrightarrow> state task1 \<in> {PENDING, WAITING})
         \<and> (is_task_complete h = is_task_complete default_hooks \<longrightarrow> state task1 = WAITING)"
proof -
  from select_task_Some(1) [OF sel] have i: "i < length (tasks s)"
    by (simp add: ready_tasks_set)
  have run: "run_once h clk s =
      (Inr (), on_finally clk (s\<lparr>tasks := (tasks s)[i := task1], memory := pool1\<rparr>))"
    using sel nd step inc by (simp add: run_once_def run_task_quantum_def Let_def)
  have fin: "tasks (on_finally clk x) = tasks x \<and> result_queue (on_finally clk x) = result_queue x" for x
    by (simp add: on_finally_def Let_def)
  have dflt: "is_task_complete h = is_task_complete default_hooks \<longrightarrow> state task1 = WAITING"
    using inc by (auto simp: default_hooks_def)
  show ?thesis
    using i dflt by (simp add: run fin Let_def ready_tasks_set)
qed

text \<open>The theorem at one task and a step hook that parks it in \<^verbatim>\<open>WAITING\<close>.\<close>

theorem incomplete_step_keeps_task_witness:
  "select_task (tasks (one_task None [])) = Some 0
   \<and> \<not> deadline_exceeded (clock_at 10) (tasks (one_task None []) ! 0)
   \<and> \<not> is_task_complete yielding_hooks
          (fst (snd (execute_step yielding_hooks ((tasks (one_task None []) ! 0)\<lparr>state := RUNNING\<rparr>)
                       (memory (one_task None [])))))
   \<and> fst (run_once yielding_hooks (clock_at 10) (one_task None [])) = Inr ()
   \<and> tasks (snd (run_once yielding_hooks (clock_at 10) (one_task None [])))
       = (tasks (one_task None []))[0 := (tasks (one_task None []) ! 0)\<lparr>state := WAITING\<rparr>]
   \<and> 0 \<in> set (ready_tasks (tasks (snd (run_once yielding_hooks (clock_at 10) (one_task None [])))))"
proof -
  let ?s = "one_task None []"
  let ?t = "(tasks ?s ! 0)\<lparr>state := WAITING\<rparr>"
  have sel: "select_task (tasks ?s) = Some 0"
    by (simp add: sched_defs Let_def)
  have nd: "\<not> deadline_exceeded (clock_at 10) (tasks ?s ! 0)"
    by (simp add: sched_defs Let_def)
  have step: "execute_step yielding_hooks ((tasks ?s ! 0)\<lparr>state := RUNNING\<rparr>) (memory ?s)
      = (None, ?t, memory ?s)"
    by (simp add: yielding_hooks_def)
  have inc: "\<not> is_task_complete yielding_hooks ?t"
    by (simp add: yielding_hooks_def)
  from incomplete_step_keeps_task [OF sel nd step inc]
  have "fst (run_once yielding_hooks (clock_at 10) ?s) = Inr ()
      \<and> tasks (snd (run_once yielding_hooks (clock_at 10) ?s)) = (tasks ?s)[0 := ?t]
      \<and> 0 \<in> set (ready_tasks (tasks (snd (run_once yielding_hooks (clock_at 10) ?s))))"
    by (simp add: Let_def sched_defs yielding_hooks_def)
  with sel nd inc step show ?thesis
    by (simp add: Let_def sched_defs yielding_hooks_def)
qed

text \<open>
  Claim C7 as written has the task left \<^verbatim>\<open>RUNNING\<close> and eligible again. A task left
  \<^verbatim>\<open>RUNNING\<close> (the step of the source under a completion predicate that says no) is not
  ready: \<^verbatim>\<open>run_once\<close> selects nothing and returns with the scheduler as it was. And under
  the completion predicate of the source a task that is not complete is \<^verbatim>\<open>WAITING\<close>, not
  \<^verbatim>\<open>RUNNING\<close>.
\<close>

theorem incomplete_step_counterexample:
  "map state (tasks (snd (run_once never_complete_hooks (clock_at 10) (one_task None []))))
      = [RUNNING]
   \<and> select_task (tasks (snd (run_once never_complete_hooks (clock_at 10) (one_task None []))))
      = None
   \<and> run_once never_complete_hooks (clock_at 11)
        (snd (run_once never_complete_hooks (clock_at 10) (one_task None [])))
      = (Inr (), snd (run_once never_complete_hooks (clock_at 10) (one_task None [])))
   \<and> map state (tasks (snd (run_once yielding_hooks (clock_at 10) (one_task None []))))
      = [WAITING]"
  by (simp add: sched_defs Let_def never_complete_hooks_def yielding_hooks_def)

section \<open>The scheduler: a send that fails\<close>

text \<open>
  Claim C6 at a task that completes while the first put on the result queue raises and the
  second is taken. The \<^verbatim>\<open>IPCError\<close> of the \<^verbatim>\<open>DONE\<close> path is caught by the
  \<^verbatim>\<open>except Exception\<close> of the quantum: \<^verbatim>\<open>run_once\<close> returns, the task is reported
  \<^verbatim>\<open>FAILED\<close> with the send's message as \<^verbatim>\<open>last_error\<close>, and it has been counted both as
  completed and as failed.
\<close>

theorem done_send_failure_absorbed:
  "fst (run_once default_hooks (clock_at 10) (one_task None [False, True])) = Inr ()
   \<and> tasks (snd (run_once default_hooks (clock_at 10) (one_task None [False, True]))) = []
   \<and> map msg_payload
        (items (result_queue (snd (run_once default_hooks (clock_at 10) (one_task None [False, True])))))
      = [\<lparr>result_id = ''t1'', result_owner = ''test'', result_state = ''FAILED'',
          result_last_error = Some ''send failed: ''\<rparr>]
   \<and> counter_value (tasks_completed (metrics
        (snd (run_once default_hooks (clock_at 10) (one_task None [False, True]))))) = 1
   \<and> counter_value (tasks_failed (metrics
        (snd (run_once default_hooks (clock_at 10) (one_task None [False, True]))))) = 1"
  by (simp add: sched_defs Let_def default_hooks_def)

text \<open>
  On the \<^verbatim>\<open>FAILED\<close> path the call of \<^verbatim>\<open>_emit_result\<close> is in the \<^verbatim>\<open>except\<close> block, outside
  the \<^verbatim>\<open>try\<close>: when the step raised and the put raises, the \<^verbatim>\<open>IPCError\<close> leaves
  \<^verbatim>\<open>run_once\<close>, and the task keeps the state and the error of the step.
\<close>

lemma failed_path_send_failure_propagates:
  assumes sel: "select_task (tasks s) = Some i"
      and nd: "\<not> deadline_exceeded clk (tasks s ! i)"
      and step: "execute_step h ((tasks s ! i)\<lparr>state := RUNNING\<rparr>) (memory s) = (Some exc, task1, pool1)"
      and refused: "\<not> next_put_taken (result_queue s)"
  shows "fst (run_once h clk s) = Inl (IPCError ''send failed: '')
       \<and> tasks (snd (run_once h clk s))
           = (tasks s)[i := task1\<lparr>state := FAILED, last_error := Some (str exc)\<rparr>]
       \<and> items (result_queue (snd (run_once h clk s))) = items (result_queue s)"
proof -
  from select_task_Some(1) [OF sel] have i: "i < length (tasks s)"
    by (simp add: ready_tasks_set)
  have fin: "tasks (on_finally clk x) = tasks x \<and> result_queue (on_finally clk x) = result_queue x" for x
    by (simp add: on_finally_def Let_def)
  show ?thesis
    using sel nd step refused i
    by (simp add: run_once_def run_task_quantum_def on_exception_def Let_def
        emit_result_refused fin)
qed


section \<open>The scheduler and the pool\<close>

text \<open>
  Claim C5 at a task whose step allocates 64 bytes for it and completes. The task is
  \<^verbatim>\<open>DONE\<close>, reported and removed from the list; its region is still in the pool and
  \<open>used_bytes\<close> is still 64.
\<close>

theorem regions_survive_task:
  "fst (run_once allocating_hooks (clock_at 10) (one_task None [])) = Inr ()
   \<and> tasks (snd (run_once allocating_hooks (clock_at 10) (one_task None []))) = []
   \<and> map (\<lambda>m. (result_id (msg_payload m), result_state (msg_payload m)))
        (items (result_queue (snd (run_once allocating_hooks (clock_at 10) (one_task None [])))))
      = [(''t1'', ''DONE'')]
   \<and> map (\<lambda>kr. (fst kr, owner_task_id (snd kr), region_size (snd kr)))
        (regions (memory (snd (run_once allocating_hooks (clock_at 10) (one_task None [])))))
      = [(''t1/stack'', ''t1'', 64)]
   \<and> used_bytes (memory (snd (run_once allocating_hooks (clock_at 10) (one_task None [])))) = 64"
  by (simp add: sched_defs Let_def allocating_hooks_def alloc_def bytearray_def)

section \<open>Counters\<close>

lemma counter_inc_nonneg: "0 \<le> amount \<Longrightarrow> counter_value c \<le> counter_value (counter_inc amount c)"
  by (simp add: counter_inc_def)

text \<open>
  Claim C8 at \<^verbatim>\<open>inc(-1.0)\<close> on a fresh counter: \<^verbatim>\<open>inc\<close> adds any amount it is given, and
  the value goes from 0 to -1.
\<close>

theorem counter_decreases:
  "counter_value (counter_inc (- 1) (Counter_init ''monolith_tasks_failed''))
     < counter_value (Counter_init ''monolith_tasks_failed'')"
  by (simp add: counter_inc_def Counter_init_def)


section \<open>The scheduler: the results of submitted tasks\<close>

text \<open>
  When every step ends its task and the queue takes every put, the task list is empty after
  as many calls of \<^verbatim>\<open>run_once\<close> as it had tasks, and every submitted task has its result.
\<close>

lemma all_ready_ready_tasks: "all_ready ts \<Longrightarrow> ready_tasks ts = [0 ..< length ts]"
  by (auto simp: all_ready_def ready_tasks_def list_all_length intro!: filter_True)

lemma all_ready_select:
  assumes "all_ready ts" "ts \<noteq> []"
  obtains i where "select_task ts = Some i" "i < length ts"
proof -
  from assms have "ready_tasks ts \<noteq> []" by (simp add: all_ready_ready_tasks)
  then obtain i where sel: "select_task ts = Some i"
    by (cases "ready_tasks ts") (auto simp: select_task_def)
  from select_task_Some(1) [OF sel] have "i < length ts" by (simp add: ready_tasks_set)
  with sel that show thesis by blast
qed

lemma remove1_update_fresh:
  assumes "i < length xs" "x \<notin> set xs"
  shows "remove1 x (xs[i := x]) = take i xs @ drop (Suc i) xs"
proof -
  have "xs[i := x] = take i xs @ x # drop (Suc i) xs"
    using assms(1) by (rule upd_conv_take_nth_drop)
  moreover have "x \<notin> set (take i xs)"
    using assms(2) by (auto dest: in_set_takeD)
  ultimately show ?thesis by (simp add: remove1_append)
qed

lemma all_ready_not_mem:
  "all_ready ts \<Longrightarrow> state t \<noteq> PENDING \<Longrightarrow> state t \<noteq> WAITING \<Longrightarrow> t \<notin> set ts"
  by (auto simp: all_ready_def list_all_iff)

lemma all_ready_drop_one: "all_ready ts \<Longrightarrow> all_ready (take i ts @ drop (Suc i) ts)"
  by (auto simp: all_ready_def list_all_iff dest: in_set_takeD in_set_dropD)

lemma task_ids_drop_one:
  "i < length ts \<Longrightarrow>
   add_mset (task_id (meta (ts ! i))) (mset (task_ids (take i ts @ drop (Suc i) ts)))
     = mset (task_ids ts)"
proof -
  assume i: "i < length ts"
  then have "ts = take i ts @ ts ! i # drop (Suc i) ts" by (rule id_take_nth_drop)
  then have "mset (task_ids ts) = mset (task_ids (take i ts @ ts ! i # drop (Suc i) ts))" by simp
  then show ?thesis by (simp add: task_ids_def)
qed

lemma all_puts_taken_next: "all_puts_taken q \<Longrightarrow> next_put_taken q"
  by (auto simp: all_puts_taken_def next_put_taken_def split: list.splits)

lemma run_once_step:
  assumes fin: "step_finishes h" and rdy: "all_ready (tasks s)"
      and puts: "all_puts_taken (result_queue s)" and ne: "tasks s \<noteq> []"
  shows "\<exists>i t'. i < length (tasks s)
           \<and> (state t' = DONE \<or> state t' = FAILED \<or> state t' = CANCELLED)
           \<and> task_id (meta t') = task_id (meta (tasks s ! i))
           \<and> fst (run_once h clk s) = Inr ()
           \<and> tasks (snd (run_once h clk s)) = take i (tasks s) @ drop (Suc i) (tasks s)
           \<and> result_queue (snd (run_once h clk s))
               = (result_queue s)\<lparr>items := items (result_queue s) @ [result_message t'],
                                   put_outcomes := tl (put_outcomes (result_queue s))\<rparr>"
proof -
  from rdy ne obtain i where sel: "select_task (tasks s) = Some i" and i: "i < length (tasks s)"
    by (rule all_ready_select)
  from puts have nxt: "next_put_taken (result_queue s)" by (rule all_puts_taken_next)
  have gone: "remove1 t' ((tasks s)[i := t']) = take i (tasks s) @ drop (Suc i) (tasks s)"
    if "state t' \<noteq> PENDING" "state t' \<noteq> WAITING" for t'
    using i all_ready_not_mem [OF rdy that] by (rule remove1_update_fresh)
  show ?thesis
  proof (cases "deadline_exceeded clk (tasks s ! i)")
    case True
    let ?t = "(tasks s ! i)\<lparr>state := CANCELLED\<rparr>"
    have "fst (run_once h clk s) = Inr ()
        \<and> tasks (snd (run_once h clk s)) = remove1 ?t ((tasks s)[i := ?t])
        \<and> result_queue (snd (run_once h clk s))
               = (result_queue s)\<lparr>items := items (result_queue s) @ [result_message ?t],
                                   put_outcomes := tl (put_outcomes (result_queue s))\<rparr>"
      using sel True nxt by (simp add: run_once_def Let_def emit_result_taken)
    with gone [of ?t] i show ?thesis by (intro exI [of _ i] exI [of _ ?t]) simp
  next
    case False
    obtain raised task1 pool1 where
      st: "execute_step h ((tasks s ! i)\<lparr>state := RUNNING\<rparr>) (memory s) = (raised, task1, pool1)"
      by (metis prod_cases3)
    have running: "state ((tasks s ! i)\<lparr>state := RUNNING\<rparr>) = RUNNING" by simp
    from fin [unfolded step_finishes_def, rule_format, OF running, of "memory s"] st
    have id1: "task_id (meta task1) = task_id (meta (tasks s ! i))"
      and compl: "raised = None \<longrightarrow> is_task_complete h task1"
      by simp_all
    let ?s1 = "s\<lparr>tasks := (tasks s)[i := task1], memory := pool1\<rparr>"
    show ?thesis
    proof (cases raised)
      case (Some exc)
      let ?t = "task1\<lparr>state := FAILED, last_error := Some (str exc)\<rparr>"
      have "fst (run_once h clk s) = Inr ()
        \<and> tasks (snd (run_once h clk s)) = remove1 ?t ((tasks s)[i := ?t])
        \<and> result_queue (snd (run_once h clk s))
               = (result_queue s)\<lparr>items := items (result_queue s) @ [result_message ?t],
                                   put_outcomes := tl (put_outcomes (result_queue s))\<rparr>"
        using sel False nxt st Some i
        by (simp add: run_once_def run_task_quantum_def on_exception_def Let_def
            emit_result_taken on_finally_frame)
      with gone [of ?t] i id1 show ?thesis by (intro exI [of _ i] exI [of _ ?t]) simp
    next
      case None
      with compl have c: "is_task_complete h task1" by simp
      let ?t = "task1\<lparr>state := DONE\<rparr>"
      have "fst (run_once h clk s) = Inr ()
        \<and> tasks (snd (run_once h clk s)) = remove1 ?t ((tasks s)[i := ?t])
        \<and> result_queue (snd (run_once h clk s))
               = (result_queue s)\<lparr>items := items (result_queue s) @ [result_message ?t],
                                   put_outcomes := tl (put_outcomes (result_queue s))\<rparr>"
        using sel False nxt st None c i
        by (simp add: run_once_def run_task_quantum_def Let_def
            emit_result_taken on_finally_frame)
      with gone [of ?t] i id1 show ?thesis by (intro exI [of _ i] exI [of _ ?t]) simp
    qed
  qed
qed

lemma result_message_terminal:
  "state t = DONE \<or> state t = FAILED \<or> state t = CANCELLED \<Longrightarrow>
     terminal_result (result_message t)"
  by (auto simp: terminal_result_def result_message_def)

lemma all_puts_taken_tl:
  "all_puts_taken q \<Longrightarrow> all_puts_taken (q\<lparr>items := xs, put_outcomes := tl (put_outcomes q)\<rparr>)"
  by (cases "put_outcomes q") (auto simp: all_puts_taken_def)

lemma run_once_accounted:
  assumes fin: "step_finishes h" and acc: "accounted s ids"
  shows "fst (run_once h clk s) = Inr ()
       \<and> accounted (snd (run_once h clk s)) ids
       \<and> length (tasks (snd (run_once h clk s))) = length (tasks s) - 1"
proof (cases "tasks s = []")
  case True
  then have "select_task (tasks s) = None" by (simp add: select_task_def ready_tasks_def)
  then have "run_once h clk s = (Inr (), s)" by (simp add: run_once_def)
  with acc True show ?thesis by simp
next
  case False
  from acc have rdy: "all_ready (tasks s)" and puts: "all_puts_taken (result_queue s)"
    and ids: "mset (result_ids (result_queue s)) + mset (task_ids (tasks s)) = mset ids"
    and trm: "list_all terminal_result (items (result_queue s))"
    by (simp_all add: accounted_def)
  from run_once_step [OF fin rdy puts False, of clk] obtain i t' where
    i: "i < length (tasks s)"
    and st: "state t' = DONE \<or> state t' = FAILED \<or> state t' = CANCELLED"
    and tid: "task_id (meta t') = task_id (meta (tasks s ! i))"
    and r: "fst (run_once h clk s) = Inr ()"
    and ts: "tasks (snd (run_once h clk s)) = take i (tasks s) @ drop (Suc i) (tasks s)"
    and q: "result_queue (snd (run_once h clk s))
               = (result_queue s)\<lparr>items := items (result_queue s) @ [result_message t'],
                                   put_outcomes := tl (put_outcomes (result_queue s))\<rparr>"
    by blast
  have "mset (result_ids (result_queue s))
          + add_mset (task_id (meta (tasks s ! i)))
              (mset (task_ids (take i (tasks s) @ drop (Suc i) (tasks s)))) = mset ids"
    using ids by (simp only: task_ids_drop_one [OF i])
  then have "mset (result_ids (result_queue (snd (run_once h clk s))))
          + mset (task_ids (tasks (snd (run_once h clk s)))) = mset ids"
    by (simp add: q ts result_ids_def result_message_def tid)
  moreover have "list_all terminal_result (items (result_queue (snd (run_once h clk s))))"
    using trm result_message_terminal [OF st] by (simp add: q)
  moreover have "all_puts_taken (result_queue (snd (run_once h clk s)))"
    unfolding q using puts by (rule all_puts_taken_tl)
  moreover have "all_ready (tasks (snd (run_once h clk s)))"
    unfolding ts using rdy by (rule all_ready_drop_one)
  moreover have "length (tasks (snd (run_once h clk s))) = length (tasks s) - 1"
    using i by (simp add: ts)
  ultimately show ?thesis using r by (simp add: accounted_def)
qed

lemma enqueue_accounted:
  "accounted s ids \<Longrightarrow> accounted (enqueue_from_payload new_id t pl s) (new_id # ids)"
  by (simp add: accounted_def enqueue_from_payload_def Let_def all_ready_def task_ids_def)

lemma init_accounted:
  "list_all (\<lambda>taken. taken) outcomes \<Longrightarrow>
     accounted (Scheduler_init (Queue_init outcomes) qms mb) []"
  by (simp add: accounted_def Scheduler_init_def Queue_init_def all_ready_def task_ids_def
      result_ids_def all_puts_taken_def)

lemma run_calls_accounted:
  assumes fin: "step_finishes h"
  shows "accounted s ids \<Longrightarrow>
     fst (run_calls h cs s) = Inr ()
     \<and> (\<exists>ids'. mset ids' = mset ids + mset (submitted_ids cs)
               \<and> accounted (snd (run_calls h cs s)) ids')"
proof (induction cs arbitrary: s ids)
  case Nil
  then show ?case by auto
next
  case (Cons c cs)
  show ?case
  proof (cases c)
    case (Enqueue new_id t pl)
    from Cons.IH [OF enqueue_accounted [OF Cons.prems, of new_id t pl]] Enqueue
    show ?thesis by auto
  next
    case (RunOnce clk)
    from run_once_accounted [OF fin Cons.prems, of clk]
    have r: "fst (run_once h clk s) = Inr ()" and a: "accounted (snd (run_once h clk s)) ids"
      by simp_all
    from Cons.IH [OF a] r RunOnce show ?thesis
      by (cases "run_once h clk s") auto
  qed
qed

lemma run_many_accounted:
  assumes fin: "step_finishes h"
  shows "accounted s ids \<Longrightarrow> length clks = length (tasks s) \<Longrightarrow>
     fst (run_many h clks s) = Inr ()
     \<and> accounted (snd (run_many h clks s)) ids
     \<and> tasks (snd (run_many h clks s)) = []"
proof (induction clks arbitrary: s)
  case Nil
  then show ?case by simp
next
  case (Cons clk clks)
  from run_once_accounted [OF fin Cons.prems(1), of clk]
  have r: "fst (run_once h clk s) = Inr ()" and a: "accounted (snd (run_once h clk s)) ids"
    and l: "length (tasks (snd (run_once h clk s))) = length (tasks s) - 1"
    by simp_all
  from l Cons.prems(2) have "length clks = length (tasks (snd (run_once h clk s)))" by simp
  from Cons.IH [OF a this] r show ?case
    by (cases "run_once h clk s") auto
qed

lemma count_mset_map:
  "count (mset (map f xs)) y = length (filter (\<lambda>x. f x = y) xs)"
  by (induction xs) auto

lemma count_result_ids:
  "count (mset (result_ids q)) tid
     = length (filter (\<lambda>m. result_id (msg_payload m) = tid) (items q))"
  unfolding result_ids_def by (rule count_mset_map)

lemma default_hooks_finish: "step_finishes default_hooks"
  by (simp add: step_finishes_def default_hooks_def)

lemma all_results_when_steps_finish:
  assumes fin: "step_finishes h"
      and puts: "list_all (\<lambda>taken. taken) outcomes"
      and len: "length clks
                 = length (tasks (snd (run_calls h cs (Scheduler_init (Queue_init outcomes) qms mb))))"
  shows "let s1 = snd (run_calls h cs (Scheduler_init (Queue_init outcomes) qms mb));
             s2 = snd (run_many h clks s1)
         in fst (run_calls h cs (Scheduler_init (Queue_init outcomes) qms mb)) = Inr ()
          \<and> fst (run_many h clks s1) = Inr ()
          \<and> tasks s2 = []
          \<and> mset (result_ids (result_queue s2)) = mset (submitted_ids cs)
          \<and> list_all terminal_result (items (result_queue s2))
          \<and> (distinct (submitted_ids cs) \<longrightarrow>
               (\<forall>tid \<in> set (submitted_ids cs).
                  length (filter (\<lambda>m. result_id (msg_payload m) = tid)
                            (items (result_queue s2))) = 1))"
proof -
  let ?s0 = "Scheduler_init (Queue_init outcomes) qms mb"
  let ?s1 = "snd (run_calls h cs ?s0)"
  let ?s2 = "snd (run_many h clks ?s1)"
  from run_calls_accounted [OF fin init_accounted [OF puts], of cs qms mb]
  obtain ids' where r1: "fst (run_calls h cs ?s0) = Inr ()"
    and ids': "mset ids' = mset (submitted_ids cs)" and a1: "accounted ?s1 ids'"
    by auto
  from run_many_accounted [OF fin a1 len]
  have r2: "fst (run_many h clks ?s1) = Inr ()" and a2: "accounted ?s2 ids'"
    and e: "tasks ?s2 = []"
    by simp_all
  from a2 e ids' have m: "mset (result_ids (result_queue ?s2)) = mset (submitted_ids cs)"
    and t: "list_all terminal_result (items (result_queue ?s2))"
    by (simp_all add: accounted_def task_ids_def)
  have "length (filter (\<lambda>m. result_id (msg_payload m) = tid) (items (result_queue ?s2))) = 1"
    if d: "distinct (submitted_ids cs)" and mem: "tid \<in> set (submitted_ids cs)" for tid
  proof -
    have "count (mset (submitted_ids cs)) tid = 1"
      using d mem by (simp add: distinct_count_atmost_1)
    with m show ?thesis by (simp add: count_result_ids [symmetric])
  qed
  with r1 r2 e m t show ?thesis by (simp add: Let_def)
qed

text \<open>
  Without those two provisos: whatever the hooks do (short of changing identifiers) and
  whatever the queue answers, one call of \<^verbatim>\<open>run_once\<close> puts nothing on the queue and keeps
  the identifiers in the list, or puts one terminal message on it and takes its identifier
  off the list.
\<close>

lemma task_ids_update_same_id:
  "i < length ts \<Longrightarrow> task_id (meta t) = task_id (meta (ts ! i)) \<Longrightarrow>
     task_ids (ts[i := t]) = task_ids ts"
  by (simp add: task_ids_def map_update list_update_same_conv)

lemma task_ids_remove1:
  "t \<in> set xs \<Longrightarrow>
     add_mset (task_id (meta t)) (mset (task_ids (remove1 t xs))) = mset (task_ids xs)"
proof -
  assume "t \<in> set xs"
  then have "add_mset t (mset (remove1 t xs)) = mset xs" by simp
  then have "image_mset (\<lambda>x. task_id (meta x)) (add_mset t (mset (remove1 t xs)))
           = image_mset (\<lambda>x. task_id (meta x)) (mset xs)"
    by simp
  then show ?thesis by (simp add: task_ids_def)
qed

lemma sends_result_ledger:
  assumes snd': "sends_result_of t i s q out"
      and i: "i < length (tasks s)"
      and tid: "task_id (meta t) = task_id (meta (tasks s ! i))"
      and q: "items q = items (result_queue s)"
  shows "(if next_put_taken q
          then fst out = Inr ()
             \<and> items (result_queue (snd out)) = items (result_queue s) @ [result_message t]
             \<and> add_mset (task_id (meta (tasks s ! i))) (mset (task_ids (tasks (snd out))))
                 = mset (task_ids (tasks s))
          else items (result_queue (snd out)) = items (result_queue s)
             \<and> task_ids (tasks (snd out)) = task_ids (tasks s))"
proof (cases "next_put_taken q")
  case True
  with snd' have r: "fst out = Inr ()"
    and ts: "tasks (snd out) = remove1 t ((tasks s)[i := t])"
    and it: "items (result_queue (snd out)) = items q @ [result_message t]"
    by (simp_all add: sends_result_of_def)
  have "t \<in> set ((tasks s)[i := t])" using i by (simp add: set_update_memI)
  from task_ids_remove1 [OF this]
  have "add_mset (task_id (meta t)) (mset (task_ids (tasks (snd out))))
          = mset (task_ids (tasks s))"
    by (simp add: ts task_ids_update_same_id [OF i tid])
  with True r it q tid show ?thesis by simp
next
  case False
  with snd' have "tasks (snd out) = (tasks s)[i := t]"
    and "items (result_queue (snd out)) = items q"
    by (simp_all add: sends_result_of_def)
  with False q show ?thesis by (simp add: task_ids_update_same_id [OF i tid])
qed

lemma keeps_idD:
  "keeps_id h \<Longrightarrow> execute_step h task pool = (raised, task1, pool1) \<Longrightarrow>
     task_id (meta task1) = task_id (meta task)"
  unfolding keeps_id_def by (metis fst_conv snd_conv)

lemma run_once_effect:
  assumes kid: "keeps_id h"
  shows "(items (result_queue (snd (run_once h clk s))) = items (result_queue s)
          \<and> mset (task_ids (tasks (snd (run_once h clk s)))) = mset (task_ids (tasks s)))
       \<or> (\<exists>t. items (result_queue (snd (run_once h clk s)))
                 = items (result_queue s) @ [result_message t]
             \<and> (state t = DONE \<or> state t = FAILED \<or> state t = CANCELLED)
             \<and> add_mset (task_id (meta t)) (mset (task_ids (tasks (snd (run_once h clk s)))))
                 = mset (task_ids (tasks s)))"
proof (cases "select_task (tasks s)")
  case None
  then show ?thesis by (simp add: run_once_def)
next
  case (Some i)
  from select_task_Some(1) [OF Some] have i: "i < length (tasks s)"
    by (simp add: ready_tasks_set)
  let ?out = "run_once h clk s"
  have use: ?thesis
    if "sends_result_of t i s q ?out" "task_id (meta t) = task_id (meta (tasks s ! i))"
       "items q = items (result_queue s)" "state t = DONE \<or> state t = FAILED \<or> state t = CANCELLED"
    for t q
  proof (cases "next_put_taken q")
    case True
    with sends_result_ledger [OF that(1) i that(2) that(3)] that(2) that(4)
    show ?thesis by (intro disjI2 exI [of _ t]) simp
  next
    case False
    with sends_result_ledger [OF that(1) i that(2) that(3)]
    show ?thesis by simp
  qed
  note sel = run_once_selected [OF Some, of clk h]
  show ?thesis
  proof (cases "deadline_exceeded clk (tasks s ! i)")
    case True
    with sel have "sends_result_of ((tasks s ! i)\<lparr>state := CANCELLED\<rparr>) i s (result_queue s) ?out"
      by simp
    then show ?thesis by (rule use) simp_all
  next
    case False
    obtain raised task1 pool1 where
      st: "execute_step h ((tasks s ! i)\<lparr>state := RUNNING\<rparr>) (memory s) = (raised, task1, pool1)"
      by (metis prod_cases3)
    from keeps_idD [OF kid st] have id1: "task_id (meta task1) = task_id (meta (tasks s ! i))"
      by simp
    from sel False st have body: "case raised of
          Some exc \<Rightarrow>
            sends_result_of (task1\<lparr>state := FAILED, last_error := Some (str exc)\<rparr>)
              i s (result_queue s) ?out
        | None \<Rightarrow>
            if \<not> is_task_complete h task1
            then fst ?out = Inr () \<and> tasks (snd ?out) = (tasks s)[i := task1]
               \<and> items (result_queue (snd ?out)) = items (result_queue s)
            else if next_put_taken (result_queue s)
            then sends_result_of (task1\<lparr>state := DONE\<rparr>) i s (result_queue s) ?out
            else sends_result_of
                   (task1\<lparr>state := FAILED, last_error := Some ''send failed: ''\<rparr>) i s
                   ((result_queue s)\<lparr>put_outcomes := tl (put_outcomes (result_queue s))\<rparr>)
                   ?out"
      by (simp split del: if_split)
    show ?thesis
    proof (cases raised)
      case (Some exc)
      with body have "sends_result_of (task1\<lparr>state := FAILED, last_error := Some (str exc)\<rparr>)
              i s (result_queue s) ?out" by simp
      then show ?thesis by (rule use) (simp_all add: id1)
    next
      case None
      show ?thesis
      proof (cases "is_task_complete h task1")
        case False
        with None body have "tasks (snd ?out) = (tasks s)[i := task1]"
          and "items (result_queue (snd ?out)) = items (result_queue s)" by simp_all
        then show ?thesis by (simp add: task_ids_update_same_id [OF i id1])
      next
        case True
        show ?thesis
        proof (cases "next_put_taken (result_queue s)")
          case taken: True
          with None True body
          have "sends_result_of (task1\<lparr>state := DONE\<rparr>) i s (result_queue s) ?out" by simp
          then show ?thesis by (rule use) (simp_all add: id1)
        next
          case refused: False
          with None True body
          have "sends_result_of
                   (task1\<lparr>state := FAILED, last_error := Some ''send failed: ''\<rparr>) i s
                   ((result_queue s)\<lparr>put_outcomes := tl (put_outcomes (result_queue s))\<rparr>)
                   ?out" by simp
          then show ?thesis by (rule use) (simp_all add: id1)
        qed
      qed
    qed
  qed
qed

lemma run_once_ledger:
  assumes kid: "keeps_id h" and led: "ledger s ids"
  shows "ledger (snd (run_once h clk s)) ids"
proof -
  from led have ids: "mset (result_ids (result_queue s)) + mset (task_ids (tasks s)) = mset ids"
    and trm: "list_all terminal_result (items (result_queue s))"
    by (simp_all add: ledger_def)
  from run_once_effect [OF kid, of clk s] show ?thesis
  proof
    assume "items (result_queue (snd (run_once h clk s))) = items (result_queue s)
          \<and> mset (task_ids (tasks (snd (run_once h clk s)))) = mset (task_ids (tasks s))"
    with ids trm show ?thesis by (simp add: ledger_def result_ids_def)
  next
    assume "\<exists>t. items (result_queue (snd (run_once h clk s)))
                 = items (result_queue s) @ [result_message t]
             \<and> (state t = DONE \<or> state t = FAILED \<or> state t = CANCELLED)
             \<and> add_mset (task_id (meta t)) (mset (task_ids (tasks (snd (run_once h clk s)))))
                 = mset (task_ids (tasks s))"
    then obtain t where it: "items (result_queue (snd (run_once h clk s)))
                 = items (result_queue s) @ [result_message t]"
      and st: "state t = DONE \<or> state t = FAILED \<or> state t = CANCELLED"
      and ms: "add_mset (task_id (meta t)) (mset (task_ids (tasks (snd (run_once h clk s)))))
                 = mset (task_ids (tasks s))"
      by blast
    have "mset (result_ids (result_queue s))
            + add_mset (task_id (meta t)) (mset (task_ids (tasks (snd (run_once h clk s)))))
          = mset ids"
      using ids by (simp only: ms)
    then have "mset (result_ids (result_queue (snd (run_once h clk s))))
            + mset (task_ids (tasks (snd (run_once h clk s)))) = mset ids"
      by (simp add: it result_ids_def result_message_def)
    moreover have "list_all terminal_result (items (result_queue (snd (run_once h clk s))))"
      using trm result_message_terminal [OF st] by (simp add: it)
    ultimately show ?thesis by (simp add: ledger_def)
  qed
qed

lemma enqueue_ledger:
  "ledger s ids \<Longrightarrow> ledger (enqueue_from_payload new_id t pl s) (new_id # ids)"
  by (simp add: ledger_def enqueue_from_payload_def Let_def task_ids_def)

lemma init_ledger: "ledger (Scheduler_init (Queue_init outcomes) qms mb) []"
  by (simp add: ledger_def Scheduler_init_def Queue_init_def task_ids_def result_ids_def)

lemma scheduler_after_calls_ledger:
  assumes kid: "keeps_id h"
  shows "ledger s ids \<Longrightarrow>
     \<exists>ids'. mset ids' = mset ids + mset (submitted_ids cs)
           \<and> ledger (scheduler_after_calls h cs s) ids'"
proof (induction cs arbitrary: s ids)
  case Nil
  then show ?case by (auto simp: scheduler_after_calls_def)
next
  case (Cons c cs)
  show ?case
  proof (cases c)
    case (Enqueue new_id t pl)
    from Cons.IH [OF enqueue_ledger [OF Cons.prems, of new_id t pl]] Enqueue
    show ?thesis by (auto simp: scheduler_after_calls_def)
  next
    case (RunOnce clk)
    from Cons.IH [OF run_once_ledger [OF kid Cons.prems, of clk]] RunOnce
    show ?thesis by (auto simp: scheduler_after_calls_def)
  qed
qed

lemma count_split_one:
  assumes "mset rs + mset ts = mset ids" "distinct ids" "tid \<in> set ids"
  shows "count (mset rs) tid = (if tid \<in> set ts then 0 else 1)"
proof -
  from assms(2,3) have "count (mset ids) tid = 1" by (simp add: distinct_count_atmost_1)
  with assms(1) have sum: "count (mset rs) tid + count (mset ts) tid = 1"
    by (metis count_union)
  show ?thesis
  proof (cases "tid \<in> set ts")
    case True
    then have "1 \<le> count (mset ts) tid" by (simp add: Suc_le_eq)
    with sum have "count (mset rs) tid = 0" by arith
    then show ?thesis by (simp only: True if_True)
  next
    case False
    then have "count (mset ts) tid = 0" by (simp add: count_eq_zero_iff)
    with sum have "count (mset rs) tid = 1" by arith
    then show ?thesis by (simp only: False if_False)
  qed
qed

lemma run_once_ends:
  assumes kid: "keeps_id h" and sel: "select_task (tasks s) = Some i"
  shows "if step_ends h clk s i
         then next_put_taken (result_queue s) \<longrightarrow>
                fst (run_once h clk s) = Inr ()
              \<and> (\<exists>m. items (result_queue (snd (run_once h clk s))) = items (result_queue s) @ [m]
                     \<and> terminal_result m
                     \<and> result_id (msg_payload m) = task_id (meta (tasks s ! i)))
              \<and> add_mset (task_id (meta (tasks s ! i)))
                   (mset (task_ids (tasks (snd (run_once h clk s)))))
                  = mset (task_ids (tasks s))
         else fst (run_once h clk s) = Inr ()
            \<and> items (result_queue (snd (run_once h clk s))) = items (result_queue s)
            \<and> task_ids (tasks (snd (run_once h clk s))) = task_ids (tasks s)"
proof -
  from select_task_Some(1) [OF sel] have i: "i < length (tasks s)"
    by (simp add: ready_tasks_set)
  let ?out = "run_once h clk s"
  have use: "fst ?out = Inr ()
              \<and> (\<exists>m. items (result_queue (snd ?out)) = items (result_queue s) @ [m]
                     \<and> terminal_result m
                     \<and> result_id (msg_payload m) = task_id (meta (tasks s ! i)))
              \<and> add_mset (task_id (meta (tasks s ! i))) (mset (task_ids (tasks (snd ?out))))
                  = mset (task_ids (tasks s))"
    if "sends_result_of t i s (result_queue s) ?out"
       "task_id (meta t) = task_id (meta (tasks s ! i))"
       "state t = DONE \<or> state t = FAILED \<or> state t = CANCELLED"
       "next_put_taken (result_queue s)"
    for t
  proof -
    from sends_result_ledger [OF that(1) i that(2)] that(4)
    have "fst ?out = Inr ()"
      and it: "items (result_queue (snd ?out)) = items (result_queue s) @ [result_message t]"
      and ms: "add_mset (task_id (meta (tasks s ! i))) (mset (task_ids (tasks (snd ?out))))
                 = mset (task_ids (tasks s))"
      by simp_all
    moreover have "terminal_result (result_message t)"
      using that(3) by (rule result_message_terminal)
    moreover have "result_id (msg_payload (result_message t)) = task_id (meta (tasks s ! i))"
      using that(2) by (simp add: result_message_def)
    ultimately show ?thesis by blast
  qed
  note char = run_once_selected [OF sel, of clk h]
  show ?thesis
  proof (cases "deadline_exceeded clk (tasks s ! i)")
    case True
    with char have "sends_result_of ((tasks s ! i)\<lparr>state := CANCELLED\<rparr>) i s (result_queue s) ?out"
      by simp
    from use [OF this] True show ?thesis by (simp add: step_ends_def)
  next
    case False
    obtain raised task1 pool1 where
      st: "execute_step h ((tasks s ! i)\<lparr>state := RUNNING\<rparr>) (memory s) = (raised, task1, pool1)"
      by (metis prod_cases3)
    from keeps_idD [OF kid st] have id1: "task_id (meta task1) = task_id (meta (tasks s ! i))"
      by simp
    from char False st have body: "case raised of
          Some exc \<Rightarrow>
            sends_result_of (task1\<lparr>state := FAILED, last_error := Some (str exc)\<rparr>)
              i s (result_queue s) ?out
        | None \<Rightarrow>
            if \<not> is_task_complete h task1
            then fst ?out = Inr () \<and> tasks (snd ?out) = (tasks s)[i := task1]
               \<and> items (result_queue (snd ?out)) = items (result_queue s)
            else if next_put_taken (result_queue s)
            then sends_result_of (task1\<lparr>state := DONE\<rparr>) i s (result_queue s) ?out
            else sends_result_of
                   (task1\<lparr>state := FAILED, last_error := Some ''send failed: ''\<rparr>) i s
                   ((result_queue s)\<lparr>put_outcomes := tl (put_outcomes (result_queue s))\<rparr>)
                   ?out"
      by (simp split del: if_split)
    show ?thesis
    proof (cases raised)
      case (Some exc)
      with body have "sends_result_of (task1\<lparr>state := FAILED, last_error := Some (str exc)\<rparr>)
              i s (result_queue s) ?out" by simp
      from use [OF this] id1 Some False st show ?thesis by (simp add: step_ends_def)
    next
      case None
      show ?thesis
      proof (cases "is_task_complete h task1")
        case incomplete: False
        with None body have "fst ?out = Inr ()" "tasks (snd ?out) = (tasks s)[i := task1]"
          and "items (result_queue (snd ?out)) = items (result_queue s)" by simp_all
        with None incomplete False st show ?thesis
          by (simp add: step_ends_def task_ids_update_same_id [OF i id1])
      next
        case True
        have ends: "step_ends h clk s i" using None True st by (simp add: step_ends_def)
        show ?thesis
        proof (cases "next_put_taken (result_queue s)")
          case taken: True
          with None True body
          have "sends_result_of (task1\<lparr>state := DONE\<rparr>) i s (result_queue s) ?out" by simp
          from use [OF this] id1 taken ends show ?thesis by simp
        next
          case refused: False
          with ends show ?thesis by simp
        qed
      qed
    qed
  qed
qed

text \<open>
  Claim C1, as the code has it, for a step hook that leaves task identifiers alone. After
  any sequence of \<^verbatim>\<open>enqueue_from_payload\<close> and \<^verbatim>\<open>run_once\<close> calls on a new scheduler, each
  returning or raising, whatever the result queue answers: the identifiers of the messages
  on the result queue and of the tasks in the list are together the identifiers submitted,
  each as often as it was submitted, and every message is a \<^verbatim>\<open>TASK_RESULT\<close> with state
  \<^verbatim>\<open>DONE\<close>, \<^verbatim>\<open>FAILED\<close> or \<^verbatim>\<open>CANCELLED\<close>; so with distinct identifiers a submitted task has no
  message while it is in the list and exactly one once it has left it, never more. And in
  any scheduler the call of \<^verbatim>\<open>run_once\<close> that selects a task and ends it (deadline passed,
  step raising, or step leaving it complete) returns, puts the task's one message on the
  queue and takes the task off the list, if the put is taken; a call that does not end the
  task returns and puts nothing on the queue.
\<close>

theorem task_result_accounting:
  assumes kid: "keeps_id h"
  shows "(let sa = scheduler_after_calls h cs (Scheduler_init (Queue_init outcomes) qms mb) in
            mset (result_ids (result_queue sa)) + mset (task_ids (tasks sa))
              = mset (submitted_ids cs)
          \<and> list_all terminal_result (items (result_queue sa))
          \<and> (distinct (submitted_ids cs) \<longrightarrow>
               (\<forall>tid \<in> set (submitted_ids cs).
                  length (filter (\<lambda>m. result_id (msg_payload m) = tid) (items (result_queue sa)))
                    = (if tid \<in> set (task_ids (tasks sa)) then 0 else 1))))
       \<and> (\<forall>i. select_task (tasks s) = Some i \<longrightarrow>
            (if step_ends h clk s i
             then next_put_taken (result_queue s) \<longrightarrow>
                    fst (run_once h clk s) = Inr ()
                  \<and> (\<exists>m. items (result_queue (snd (run_once h clk s)))
                           = items (result_queue s) @ [m]
                         \<and> terminal_result m
                         \<and> result_id (msg_payload m) = task_id (meta (tasks s ! i)))
                  \<and> add_mset (task_id (meta (tasks s ! i)))
                       (mset (task_ids (tasks (snd (run_once h clk s)))))
                      = mset (task_ids (tasks s))
             else fst (run_once h clk s) = Inr ()
                \<and> items (result_queue (snd (run_once h clk s))) = items (result_queue s)
                \<and> task_ids (tasks (snd (run_once h clk s))) = task_ids (tasks s)))"
proof -
  let ?sa = "scheduler_after_calls h cs (Scheduler_init (Queue_init outcomes) qms mb)"
  from scheduler_after_calls_ledger [OF kid init_ledger, of cs outcomes qms mb]
  obtain ids' where ids': "mset ids' = mset (submitted_ids cs)" and led: "ledger ?sa ids'"
    by auto
  from led ids' have m: "mset (result_ids (result_queue ?sa)) + mset (task_ids (tasks ?sa))
              = mset (submitted_ids cs)"
    and t: "list_all terminal_result (items (result_queue ?sa))"
    by (simp_all add: ledger_def)
  have c: "length (filter (\<lambda>m. result_id (msg_payload m) = tid) (items (result_queue ?sa)))
                    = (if tid \<in> set (task_ids (tasks ?sa)) then 0 else 1)"
    if "distinct (submitted_ids cs)" "tid \<in> set (submitted_ids cs)" for tid
    using count_split_one [OF m that] by (simp add: count_result_ids)
  have "\<forall>i. select_task (tasks s) = Some i \<longrightarrow>
            (if step_ends h clk s i
             then next_put_taken (result_queue s) \<longrightarrow>
                    fst (run_once h clk s) = Inr ()
                  \<and> (\<exists>m. items (result_queue (snd (run_once h clk s)))
                           = items (result_queue s) @ [m]
                         \<and> terminal_result m
                         \<and> result_id (msg_payload m) = task_id (meta (tasks s ! i)))
                  \<and> add_mset (task_id (meta (tasks s ! i)))
                       (mset (task_ids (tasks (snd (run_once h clk s)))))
                      = mset (task_ids (tasks s))
             else fst (run_once h clk s) = Inr ()
                \<and> items (result_queue (snd (run_once h clk s))) = items (result_queue s)
                \<and> task_ids (tasks (snd (run_once h clk s))) = task_ids (tasks s))"
    using run_once_ends [OF kid] by blast
  with m t c show ?thesis unfolding Let_def by blast
qed

text \<open>
  The theorem at a task of two steps. Submitted and given two calls of \<^verbatim>\<open>run_once\<close>, it has
  exactly one message, and that is terminal; and the second of these calls, made on the
  scheduler in which the first has parked the task, ends the task, returns and reports it.
\<close>

theorem task_result_accounting_witness:
  "keeps_id two_step_hooks
   \<and> distinct (submitted_ids [Enqueue ''t1'' 5 (payload_of 0 None), RunOnce (clock_at 10),
                                RunOnce (clock_at 11)])
   \<and> ''t1'' \<in> set (submitted_ids [Enqueue ''t1'' 5 (payload_of 0 None), RunOnce (clock_at 10),
                                   RunOnce (clock_at 11)])
   \<and> length (filter (\<lambda>m. result_id (msg_payload m) = ''t1'')
        (items (result_queue (scheduler_after_calls two_step_hooks
           [Enqueue ''t1'' 5 (payload_of 0 None), RunOnce (clock_at 10), RunOnce (clock_at 11)]
           (Scheduler_init (Queue_init []) 10 1024))))) = 1
   \<and> list_all terminal_result
        (items (result_queue (scheduler_after_calls two_step_hooks
           [Enqueue ''t1'' 5 (payload_of 0 None), RunOnce (clock_at 10), RunOnce (clock_at 11)]
           (Scheduler_init (Queue_init []) 10 1024))))
   \<and> select_task (tasks parked_task) = Some 0
   \<and> step_ends two_step_hooks (clock_at 11) parked_task 0
   \<and> next_put_taken (result_queue parked_task)
   \<and> fst (run_once two_step_hooks (clock_at 11) parked_task) = Inr ()
   \<and> result_ids (result_queue (snd (run_once two_step_hooks (clock_at 11) parked_task)))
       = [''t1'']
   \<and> tasks (snd (run_once two_step_hooks (clock_at 11) parked_task)) = []"
proof -
  have kid: "keeps_id two_step_hooks"
    by (simp add: keeps_id_def two_step_hooks_def)
  from task_result_accounting [OF kid,
      of "[Enqueue ''t1'' 5 (payload_of 0 None), RunOnce (clock_at 10), RunOnce (clock_at 11)]"
         "[]" 10 1024 parked_task "clock_at 11"] kid
  show ?thesis
    by (simp add: sched_defs Let_def two_step_hooks_def scheduler_after_calls_def
        parked_task_def step_ends_def next_put_taken_def terminal_result_def result_ids_def
        task_ids_def)
qed

text \<open>
  Claim C1 as written holds of every submitted task. First conjuncts: with the hooks of
  the source and a result queue whose puts raise, the task is left in the list in state
  \<^verbatim>\<open>FAILED\<close>, which \<^verbatim>\<open>run_once\<close> never selects, and the queue is empty however often
  \<^verbatim>\<open>run_once\<close> is called. Next: a task whose step parks it in \<^verbatim>\<open>WAITING\<close> every time has
  no result after three calls, and is as it was after the first. Last: with a step that
  changes the identifier of its task, two submitted tasks give two messages with the
  identifier of the first and none with that of the second.
\<close>

theorem task_result_accounting_counterexample:
  "items (result_queue (scheduler_after_calls default_hooks
      [Enqueue ''t1'' 5 (payload_of 0 None), RunOnce (clock_at 10), RunOnce (clock_at 11),
       RunOnce (clock_at 12)]
      (Scheduler_init (Queue_init [False, False]) 10 1024))) = []
   \<and> map state (tasks (scheduler_after_calls default_hooks
      [Enqueue ''t1'' 5 (payload_of 0 None), RunOnce (clock_at 10), RunOnce (clock_at 11),
       RunOnce (clock_at 12)]
      (Scheduler_init (Queue_init [False, False]) 10 1024))) = [FAILED]
   \<and> items (result_queue (scheduler_after_calls yielding_hooks
      [Enqueue ''t1'' 5 (payload_of 0 None), RunOnce (clock_at 10), RunOnce (clock_at 11),
       RunOnce (clock_at 12)]
      (Scheduler_init (Queue_init []) 10 1024))) = []
   \<and> map state (tasks (scheduler_after_calls yielding_hooks
      [Enqueue ''t1'' 5 (payload_of 0 None), RunOnce (clock_at 10), RunOnce (clock_at 11),
       RunOnce (clock_at 12)]
      (Scheduler_init (Queue_init []) 10 1024))) = [WAITING]
   \<and> result_ids (result_queue (scheduler_after_calls renaming_hooks
      [Enqueue ''t1'' 5 (payload_of 0 None), Enqueue ''t2'' 6 (payload_of 0 None),
       RunOnce (clock_at 10), RunOnce (clock_at 11)]
      (Scheduler_init (Queue_init []) 10 1024))) = [''t1'', ''t1'']"
  by (simp add: sched_defs Let_def default_hooks_def yielding_hooks_def renaming_hooks_def
      scheduler_after_calls_def result_ids_def)

end
